theory Spec2Isabelle
  imports Main "HOL-Library.AList" "HOL-Library.Sublist"
begin

section \<open>The chat server of ts-socket, as a state machine\<close>

text \<open>
  The server keeps three module-level containers (\<open>users\<close>, \<open>messages\<close>, \<open>rooms\<close>) and,
  per socket, the field \<open>socket.data.user\<close>. Every handler registered inside
  \<open>io.on('connection', ...)\<close> becomes a function from the server state, the id of the
  socket the handler runs on, the arguments of the event and the clock readings the
  handler takes, to the new state and the list of what the handler sends, in program
  order. The handlers are registered on one socket each: which sockets are connected is
  part of the state, and \<open>step\<close> hands a request to its handler as socket.io does, to
  the handlers of a connected socket only and \<open>disconnect\<close> once per socket.

  Modelling decisions:
  \<^item> A JavaScript \<open>Map\<close> iterates in insertion order and \<open>set\<close> on a present key keeps
    the key's position, so a \<open>Map\<close> is an association list with \<open>AList.update\<close> for
    \<open>set\<close>, \<open>AList.delete\<close> for \<open>delete\<close> and \<open>map_of\<close> for \<open>get\<close>.
  \<^item> The three interfaces all have a field \<open>id\<close>; the record fields carry the prefix
    \<open>u_\<close>, \<open>m_\<close>, \<open>r_\<close> of their interface.
  \<^item> \<open>Date.now()\<close> and \<open>new Date()\<close> read a clock the program does not control: every
    reading is an argument of the handler (a natural number of milliseconds).
  \<^item> A JavaScript string is a sequence of UTF-16 code units. The strings of the model
    are those whose code units are all below 256 (the code points U+0000 to U+00FF), a
    \<open>char\<close> being the code unit: \<open>CHR 0xA0\<close> is the no-break space U+00A0, \<open>CHR 0xC9\<close> is
    U+00C9. On these strings \<open>trim\<close> and \<open>toLowerCase\<close> below are the functions of
    ECMAScript; strings with a code unit from 256 on are outside the model.
  \<^item> \<open>console.log\<close> and the socket.io room bookkeeping of \<open>socket.join\<close> have no
    effect on the three containers and are left out.
\<close>

subsection \<open>Strings\<close>

text \<open>
  \<open>String.prototype.trim\<close> removes white space and line terminators from both ends.
  Below 256 these are U+0009 (tab), U+000A (line feed), U+000B (vertical tab), U+000C
  (form feed), U+000D (carriage return), U+0020 (space) and U+00A0 (no-break space); the
  others (U+1680, U+2000 to U+200A, U+2028, U+2029, U+202F, U+205F, U+3000, U+FEFF) are
  code units from 256 on.
\<close>

definition isWhitespace :: "char \<Rightarrow> bool" where
  "isWhitespace c =
     (c = CHR 0x09 \<or> c = CHR 0x0A \<or> c = CHR 0x0B \<or> c = CHR 0x0C \<or> c = CHR 0x0D \<or> c = CHR '' '' \<or>
      c = CHR 0xA0)"

definition trim :: "string \<Rightarrow> string" where
  "trim s = rev (dropWhile isWhitespace (rev (dropWhile isWhitespace s)))"

text \<open>
  \<open>String.prototype.toLowerCase\<close> maps every code point to its Unicode lower case. Below
  256 the code points with a lower case other than themselves are U+0041 to U+005A (A to
  Z), U+00C0 to U+00D6 and U+00D8 to U+00DE (the accented capitals; U+00D7 is the
  multiplication sign), each mapped to the code point 32 above it. No rule that looks at
  the neighbours of a character or changes the length of the string applies below 256.
\<close>

definition upper_chars :: "char list" where
  "upper_chars =
     ''ABCDEFGHIJKLMNOPQRSTUVWXYZ'' @
     [CHR 0xC0, CHR 0xC1, CHR 0xC2, CHR 0xC3, CHR 0xC4, CHR 0xC5, CHR 0xC6, CHR 0xC7,
      CHR 0xC8, CHR 0xC9, CHR 0xCA, CHR 0xCB, CHR 0xCC, CHR 0xCD, CHR 0xCE, CHR 0xCF,
      CHR 0xD0, CHR 0xD1, CHR 0xD2, CHR 0xD3, CHR 0xD4, CHR 0xD5, CHR 0xD6,
      CHR 0xD8, CHR 0xD9, CHR 0xDA, CHR 0xDB, CHR 0xDC, CHR 0xDD, CHR 0xDE]"

definition lower_chars :: "char list" where
  "lower_chars =
     ''abcdefghijklmnopqrstuvwxyz'' @
     [CHR 0xE0, CHR 0xE1, CHR 0xE2, CHR 0xE3, CHR 0xE4, CHR 0xE5, CHR 0xE6, CHR 0xE7,
      CHR 0xE8, CHR 0xE9, CHR 0xEA, CHR 0xEB, CHR 0xEC, CHR 0xED, CHR 0xEE, CHR 0xEF,
      CHR 0xF0, CHR 0xF1, CHR 0xF2, CHR 0xF3, CHR 0xF4, CHR 0xF5, CHR 0xF6,
      CHR 0xF8, CHR 0xF9, CHR 0xFA, CHR 0xFB, CHR 0xFC, CHR 0xFD, CHR 0xFE]"

definition lower_char :: "char \<Rightarrow> char" where
  "lower_char c = (case map_of (zip upper_chars lower_chars) c of Some d \<Rightarrow> d | None \<Rightarrow> c)"

definition toLowerCase :: "string \<Rightarrow> string" where
  "toLowerCase s = map lower_char s"

definition digit_char :: "nat \<Rightarrow> char" where
  "digit_char d = ''0123456789'' ! d"

text \<open>\<open>Number.prototype.toString\<close> on a non-negative integer: its decimal digits.\<close>

function toString :: "nat \<Rightarrow> string" where
  "toString n = (if n < 10 then [digit_char n] else toString (n div 10) @ [digit_char (n mod 10)])"
  by pat_completeness auto
termination
  by (relation "measure id") auto

declare toString.simps [simp del]

text \<open>Reading a decimal string back, to compare ids as the numbers they print.\<close>

definition digit_value :: "char \<Rightarrow> nat" where
  "digit_value c = (case map_of (zip ''0123456789'' [0, 1, 2, 3, 4, 5, 6, 7, 8, 9]) c of
                      Some d \<Rightarrow> d
                    | None \<Rightarrow> 0)"

definition parseNat :: "string \<Rightarrow> nat" where
  "parseNat s = foldl (\<lambda>a c. 10 * a + digit_value c) 0 s"

text \<open>
  \<open>Array.prototype.slice(start)\<close> with one argument: a negative \<open>start\<close> counts from the
  end, and the start index is clamped to the array.
\<close>

definition slice :: "int \<Rightarrow> 'a list \<Rightarrow> 'a list" where
  "slice start xs =
     (let len = int (length xs);
          k = (if start < 0 then max (len + start) 0 else min start len)
      in drop (nat k) xs)"

subsection \<open>Data (shared/types.ts)\<close>

record User =
  u_id :: string
  u_username :: string
  u_joinedAt :: nat

datatype message_type = Text | System

record Message =
  m_id :: string
  m_userId :: string
  m_username :: string
  m_content :: string
  m_timestamp :: nat
  m_type :: message_type

record Room =
  r_id :: string
  r_name :: string
  r_users :: "User list"
  r_createdAt :: nat

text \<open>The events of \<open>ServerToClientEvents\<close> with their payloads.\<close>

datatype payload =
    UserJoined User
  | UserLeft User
  | UsersList "User list"
  | MessageNew Message
  | MessageHistory "Message list"
  | RoomCreated Room
  | RoomsList "Room list"
  | ErrorEvent string
  | Notification string

text \<open>
  Who an emission goes to: \<open>socket.emit\<close> reaches the socket itself,
  \<open>socket.broadcast.emit\<close> every connected socket but this one, \<open>io.emit\<close> every
  connected socket.
\<close>

datatype target = ToSocket string | ToOthers string | ToAll

text \<open>
  What a handler sends: an emission, or the acknowledgement callback of the request
  (\<open>user:join\<close>, \<open>message:send\<close> and \<open>room:create\<close> have one each).
\<close>

datatype effect =
    Emit target payload
  | JoinCallback bool "string option"
  | SendCallback bool
  | RoomCallback "Room option"

text \<open>
  The state: the three containers of the module, \<open>socket.data.user\<close> of every socket
  (\<open>None\<close> when it is not set), and the ids of the sockets socket.io holds as connected.
\<close>

record server =
  users :: "(string \<times> User) list"
  messages :: "Message list"
  rooms :: "(string \<times> Room) list"
  sockData :: "string \<rightharpoonup> User"
  connected :: "string list"

definition defaultRoom :: "nat \<Rightarrow> Room" where
  "defaultRoom t = \<lparr>r_id = ''general'', r_name = ''General'', r_users = [], r_createdAt = t\<rparr>"

text \<open>The state when the module has been loaded, at clock reading \<open>t\<close>.\<close>

definition init :: "nat \<Rightarrow> server" where
  "init t = \<lparr>users = [], messages = [], rooms = [(''general'', defaultRoom t)],
             sockData = Map.empty, connected = []\<rparr>"

subsection \<open>The handlers\<close>

text \<open>
  \<open>io.on('connection', ...)\<close>: socket.io calls it with a new socket, whose \<open>data\<close> is
  empty; the callback registers the handlers below on that socket and sends nothing.
  Socket ids are unique among the connected sockets, so a connection under an id that is
  connected does not occur and is left without effect.
\<close>

definition connection :: "server \<Rightarrow> string \<Rightarrow> server \<times> effect list" where
  "connection s sid =
     (if sid \<in> set (connected s) then (s, [])
      else (s\<lparr>connected := connected s @ [sid], sockData := (sockData s)(sid := None)\<rparr>, []))"

text \<open>
  \<open>user:join\<close>. The clock is read for \<open>joinedAt\<close>, for the id of the system message and
  for its timestamp. \<open>rooms.get('general')!\<close> is not checked by the code: were the room
  absent, \<open>generalRoom.users\<close> would throw after the registry and the socket data have
  been written, and the \<open>catch\<close> answers \<open>Internal server error\<close>.
\<close>

definition user_join ::
  "server \<Rightarrow> string \<Rightarrow> string \<Rightarrow> nat \<Rightarrow> nat \<Rightarrow> nat \<Rightarrow> server \<times> effect list" where
  "user_join s sid username tJoined tId tStamp =
     (if username = [] \<or> trim username = [] then
        (s, [JoinCallback False (Some ''Username cannot be empty'')])
      else
        (case find (\<lambda>u. toLowerCase (u_username u) = toLowerCase username) (map snd (users s)) of
           Some existingUser \<Rightarrow> (s, [JoinCallback False (Some ''Username already taken'')])
         | None \<Rightarrow>
            (let user = \<lparr>u_id = sid, u_username = trim username, u_joinedAt = tJoined\<rparr>;
                 s1 = s\<lparr>users := AList.update sid user (users s),
                        sockData := (sockData s)(sid \<mapsto> user)\<rparr>
             in (case map_of (rooms s1) ''general'' of
                   None \<Rightarrow> (s1, [JoinCallback False (Some ''Internal server error'')])
                 | Some generalRoom \<Rightarrow>
                    (let s2 = s1\<lparr>rooms := AList.update ''general''
                                 (generalRoom\<lparr>r_users := r_users generalRoom @ [user]\<rparr>)
                                 (rooms s1)\<rparr>;
                         systemMessage =
                           \<lparr>m_id = toString tId, m_userId = ''system'', m_username = ''System'',
                            m_content = username @ '' joined the chat'', m_timestamp = tStamp,
                            m_type = System\<rparr>
                     in (s2\<lparr>messages := messages s2 @ [systemMessage]\<rparr>,
                         [Emit (ToOthers sid) (UserJoined user),
                          Emit (ToSocket sid) (UsersList (map snd (users s2))),
                          Emit (ToSocket sid) (MessageHistory (slice (- 50) (messages s2))),
                          Emit ToAll (MessageNew systemMessage),
                          JoinCallback True None]))))))"

text \<open>\<open>message:send\<close>. The clock is read for the id and for the timestamp.\<close>

definition message_send ::
  "server \<Rightarrow> string \<Rightarrow> string \<Rightarrow> nat \<Rightarrow> nat \<Rightarrow> server \<times> effect list" where
  "message_send s sid content tId tStamp =
     (case sockData s sid of
        None \<Rightarrow> (s, [SendCallback False, Emit (ToSocket sid) (ErrorEvent ''You must join first'')])
      | Some user \<Rightarrow>
          if content = [] \<or> trim content = [] then (s, [SendCallback False])
          else
            let message =
                  \<lparr>m_id = toString tId, m_userId = u_id user, m_username = u_username user,
                   m_content = trim content, m_timestamp = tStamp, m_type = Text\<rparr>
            in (s\<lparr>messages := messages s @ [message]\<rparr>,
                [Emit ToAll (MessageNew message), SendCallback True]))"

text \<open>
  \<open>message:getHistory\<close>. The limit is optional (\<open>None\<close> when the caller omits it) and
  defaults to 50; the model takes integer limits.
\<close>

definition message_getHistory :: "server \<Rightarrow> string \<Rightarrow> int option \<Rightarrow> server \<times> effect list" where
  "message_getHistory s sid limit =
     (let lim = (case limit of None \<Rightarrow> 50 | Some n \<Rightarrow> n);
          history = slice (- lim) (messages s)
      in (s, [Emit (ToSocket sid) (MessageHistory history)]))"

text \<open>\<open>room:create\<close>. The clock is read for the room id and for \<open>createdAt\<close>.\<close>

definition room_create ::
  "server \<Rightarrow> string \<Rightarrow> string \<Rightarrow> nat \<Rightarrow> nat \<Rightarrow> server \<times> effect list" where
  "room_create s sid name tId tCreated =
     (case sockData s sid of
        None \<Rightarrow> (s, [RoomCallback None])
      | Some user \<Rightarrow>
          let roomId = ''room-'' @ toString tId;
              room = \<lparr>r_id = roomId, r_name = trim name, r_users = [], r_createdAt = tCreated\<rparr>
          in (s\<lparr>rooms := AList.update roomId room (rooms s)\<rparr>,
              [Emit ToAll (RoomCreated room), RoomCallback (Some room)]))"

definition room_list :: "server \<Rightarrow> string \<Rightarrow> server \<times> effect list" where
  "room_list s sid = (s, [Emit (ToSocket sid) (RoomsList (map snd (rooms s)))])"

definition typing_start :: "server \<Rightarrow> string \<Rightarrow> server \<times> effect list" where
  "typing_start s sid =
     (case sockData s sid of
        Some user \<Rightarrow> (s, [Emit (ToOthers sid) (Notification (u_username user @ '' is typing...''))])
      | None \<Rightarrow> (s, []))"

definition typing_stop :: "server \<Rightarrow> string \<Rightarrow> server \<times> effect list" where
  "typing_stop s sid = (s, [])"

text \<open>
  \<open>disconnect\<close>. The handler reads \<open>socket.data.user\<close> and never clears it. The clock is
  read for the id of the system message and for its timestamp.
\<close>

definition disconnect :: "server \<Rightarrow> string \<Rightarrow> nat \<Rightarrow> nat \<Rightarrow> server \<times> effect list" where
  "disconnect s sid tId tStamp =
     (case sockData s sid of
        Some user \<Rightarrow>
          let s1 = s\<lparr>users := AList.delete sid (users s),
                     rooms := map (\<lambda>(k, room).
                                (k, room\<lparr>r_users := filter (\<lambda>u. u_id u \<noteq> sid) (r_users room)\<rparr>))
                              (rooms s)\<rparr>;
              systemMessage =
                \<lparr>m_id = toString tId, m_userId = ''system'', m_username = ''System'',
                 m_content = u_username user @ '' left the chat'', m_timestamp = tStamp,
                 m_type = System\<rparr>
          in (s1\<lparr>messages := messages s1 @ [systemMessage]\<rparr>,
              [Emit (ToOthers sid) (UserLeft user), Emit ToAll (MessageNew systemMessage)])
      | None \<Rightarrow> (s, []))"

subsection \<open>Requests and runs\<close>

text \<open>
  A request is a new connection, one client event or the disconnect notification,
  together with the clock readings its handler takes, in program order.
\<close>

datatype request =
    Connect
  | Join string nat nat nat
  | Send string nat nat
  | GetHistory "int option"
  | CreateRoom string nat nat
  | ListRooms
  | TypingStart
  | TypingStop
  | Disconnect nat nat

text \<open>
  What a request runs: the connection callback of \<open>io.on\<close>, or the handler that
  \<open>socket.on\<close> has registered for the event.
\<close>

fun handler :: "server \<Rightarrow> string \<Rightarrow> request \<Rightarrow> server \<times> effect list" where
  "handler s sid Connect = connection s sid"
| "handler s sid (Join username tJoined tId tStamp) = user_join s sid username tJoined tId tStamp"
| "handler s sid (Send content tId tStamp) = message_send s sid content tId tStamp"
| "handler s sid (GetHistory limit) = message_getHistory s sid limit"
| "handler s sid (CreateRoom name tId tCreated) = room_create s sid name tId tCreated"
| "handler s sid ListRooms = room_list s sid"
| "handler s sid TypingStart = typing_start s sid"
| "handler s sid TypingStop = typing_stop s sid"
| "handler s sid (Disconnect tId tStamp) = disconnect s sid tId tStamp"

text \<open>
  What socket.io does with a request. A new connection runs the connection callback. An
  event of a socket runs the socket's handler while the socket is connected; socket.io
  ignores what arrives for a socket that is not. It emits \<open>disconnect\<close> on a connected
  socket once and the socket is connected no longer; \<open>socket.data\<close> stays as it is on
  the closed socket.
\<close>

definition step :: "server \<Rightarrow> string \<times> request \<Rightarrow> server \<times> effect list" where
  "step s e =
     (let sid = fst e; r = snd e
      in if r = Connect then handler s sid r
         else if sid \<in> set (connected s) then
           (let (s', out) = handler s sid r
            in (case r of
                  Disconnect tId tStamp \<Rightarrow> (s'\<lparr>connected := removeAll sid (connected s')\<rparr>, out)
                | _ \<Rightarrow> (s', out)))
         else (s, []))"

text \<open>The handlers run one at a time, each to completion: a run folds \<open>step\<close>.\<close>

fun run :: "server \<Rightarrow> (string \<times> request) list \<Rightarrow> server" where
  "run s [] = s"
| "run s (e # es) = run (fst (step s e)) es"

subsection \<open>Properties of states and of emissions\<close>

text \<open>A connection id is registered when the \<open>users\<close> map has an entry under it.\<close>

definition registered :: "server \<Rightarrow> string \<Rightarrow> bool" where
  "registered s c = (map_of (users s) c \<noteq> None)"

text \<open>The ids of the members of a room.\<close>

definition member_ids :: "Room \<Rightarrow> string list" where
  "member_ids room = map u_id (r_users room)"

text \<open>Invariant I4: every member of every room is registered.\<close>

definition I4 :: "server \<Rightarrow> bool" where
  "I4 s = list_all (\<lambda>(k, room). list_all (registered s) (member_ids room)) (rooms s)"

text \<open>The clock reading a request's handler takes for the id of the message it appends.\<close>

fun idClock :: "request \<Rightarrow> nat option" where
  "idClock (Join username tJoined tId tStamp) = Some tId"
| "idClock (Send content tId tStamp) = Some tId"
| "idClock (Disconnect tId tStamp) = Some tId"
| "idClock r = None"

text \<open>The message ids of a log, read as numbers.\<close>

definition id_values :: "Message list \<Rightarrow> nat list" where
  "id_values ms = map (\<lambda>m. parseNat (m_id m)) ms"

text \<open>
  The clock reading taken for a message id by a request, if the request changes the log,
  and the readings taken along a run, in order.
\<close>

definition id_reading :: "server \<Rightarrow> string \<times> request \<Rightarrow> nat list" where
  "id_reading s e =
     (if messages (fst (step s e)) = messages s then []
      else (case idClock (snd e) of Some t \<Rightarrow> [t] | None \<Rightarrow> []))"

fun id_readings :: "server \<Rightarrow> (string \<times> request) list \<Rightarrow> nat list" where
  "id_readings s [] = []"
| "id_readings s (e # es) = id_reading s e @ id_readings (fst (step s e)) es"

text \<open>The id the \<open>room:create\<close> handler makes from a clock reading.\<close>

definition room_id :: "nat \<Rightarrow> string" where
  "room_id t = ''room-'' @ toString t"

text \<open>
  The clock reading taken for a room id by a request, if the request is a \<open>room:create\<close>
  that reaches its handler on a socket that has joined, and the readings taken along a
  run, in order.
\<close>

definition room_reading :: "server \<Rightarrow> string \<times> request \<Rightarrow> nat list" where
  "room_reading s e =
     (case snd e of
        CreateRoom name tId tCreated \<Rightarrow>
          (if fst e \<in> set (connected s) \<and> sockData s (fst e) \<noteq> None then [tId] else [])
      | _ \<Rightarrow> [])"

fun room_readings :: "server \<Rightarrow> (string \<times> request) list \<Rightarrow> nat list" where
  "room_readings s [] = []"
| "room_readings s (e # es) = room_reading s e @ room_readings (fst (step s e)) es"

text \<open>A name equals a registered username up to case.\<close>

definition name_taken :: "server \<Rightarrow> string \<Rightarrow> bool" where
  "name_taken s name =
     list_ex (\<lambda>v. toLowerCase (u_username v) = toLowerCase name) (map snd (users s))"



text \<open>
  The two answers a join sends to the requester alone: the participant snapshot and the
  message history.
\<close>

fun requester_unicast :: "string \<Rightarrow> effect \<Rightarrow> bool" where
  "requester_unicast sid (Emit (ToSocket c) (UsersList us)) = (c = sid)"
| "requester_unicast sid (Emit (ToSocket c) (MessageHistory ms)) = (c = sid)"
| "requester_unicast sid e = False"

text \<open>A broadcast is an emission to every socket, with or without the sender.\<close>

fun broadcast :: "effect \<Rightarrow> bool" where
  "broadcast (Emit (ToOthers c) p) = True"
| "broadcast (Emit ToAll p) = True"
| "broadcast e = False"

text \<open>A broadcast that the socket \<open>sid\<close> is among the receivers of.\<close>

fun broadcast_reaching :: "string \<Rightarrow> effect \<Rightarrow> bool" where
  "broadcast_reaching sid (Emit (ToOthers c) p) = (c \<noteq> sid)"
| "broadcast_reaching sid (Emit ToAll p) = True"
| "broadcast_reaching sid e = False"

text \<open>
  \<open>all_before P Q es\<close>: in the sequence \<open>es\<close> no element with \<open>P\<close> comes after an
  element with \<open>Q\<close>.
\<close>

fun all_before :: "('a \<Rightarrow> bool) \<Rightarrow> ('a \<Rightarrow> bool) \<Rightarrow> 'a list \<Rightarrow> bool" where
  "all_before P Q [] = True"
| "all_before P Q (x # xs) = ((if Q x then list_all (\<lambda>y. \<not> P y) xs else True) \<and> all_before P Q xs)"

subsection \<open>Example states\<close>

text \<open>The server after socket \<open>c1\<close> has connected and joined as \<open>alice\<close>.\<close>

definition alice_joined :: server where
  "alice_joined = fst (user_join (fst (connection (init 0) ''c1'')) ''c1'' ''alice'' 1 2 3)"

text \<open>The participant and the system message of that join.\<close>

definition alice :: User where
  "alice = \<lparr>u_id = ''c1'', u_username = ''alice'', u_joinedAt = 1\<rparr>"

definition alice_joined_message :: Message where
  "alice_joined_message =
     \<lparr>m_id = ''2'', m_userId = ''system'', m_username = ''System'',
      m_content = ''alice joined the chat'', m_timestamp = 3, m_type = System\<rparr>"

section \<open>Facts about the string functions\<close>

lemma dropWhile_all: "list_all P xs \<Longrightarrow> dropWhile P xs = []"
  by (induction xs) auto

lemma trim_blank: "list_all isWhitespace s \<Longrightarrow> trim s = []"
  by (simp only: trim_def dropWhile_all rev.simps dropWhile.simps)

lemma trim_decomp:
  "s = takeWhile isWhitespace s @ trim s @ rev (takeWhile isWhitespace (rev (dropWhile isWhitespace s)))"
proof -
  let ?d = "dropWhile isWhitespace s"
  have "rev (takeWhile isWhitespace (rev ?d) @ dropWhile isWhitespace (rev ?d)) = ?d"
    by (simp only: takeWhile_dropWhile_id rev_rev_ident)
  then have "trim s @ rev (takeWhile isWhitespace (rev ?d)) = ?d"
    by (simp only: rev_append trim_def)
  moreover have "s = takeWhile isWhitespace s @ ?d" by simp
  ultimately show ?thesis by simp
qed

lemma trim_last: "trim s \<noteq> [] \<Longrightarrow> \<not> isWhitespace (last (trim s))"
  by (simp add: trim_def last_rev hd_dropWhile)

lemma last_dropWhile: "dropWhile P xs \<noteq> [] \<Longrightarrow> last (dropWhile P xs) = last xs"
  by (induction xs) auto

lemma trim_hd:
  assumes "trim s \<noteq> []"
  shows "\<not> isWhitespace (hd (trim s))"
proof -
  let ?d = "dropWhile isWhitespace s"
  have ne: "dropWhile isWhitespace (rev ?d) \<noteq> []"
    using assms by (simp add: trim_def)
  have d: "?d \<noteq> []"
  proof
    assume a: "?d = []"
    have "dropWhile isWhitespace (rev ?d) = []"
      by (simp only: a rev.simps dropWhile.simps)
    with ne show False by contradiction
  qed
  have "hd (trim s) = last (dropWhile isWhitespace (rev ?d))"
    using ne by (simp add: trim_def hd_rev)
  also have "\<dots> = last (rev ?d)" using ne by (rule last_dropWhile)
  also have "\<dots> = hd ?d" using d by (simp add: last_rev)
  finally show ?thesis using d by (simp add: hd_dropWhile)
qed

lemma digit_value_digit_char: "d < 10 \<Longrightarrow> digit_value (digit_char d) = d"
proof -
  assume "d < 10"
  then have "d \<in> {0, 1, 2, 3, 4, 5, 6, 7, 8, 9}" by auto
  then show ?thesis
    by (auto simp: digit_value_def digit_char_def)
qed

lemma parseNat_snoc: "parseNat (s @ [c]) = 10 * parseNat s + digit_value c"
  by (simp add: parseNat_def)

lemma parseNat_toString: "parseNat (toString n) = n"
proof (induction n rule: toString.induct)
  case (1 n)
  show ?case
  proof (cases "n < 10")
    case True
    then show ?thesis
      by (simp add: toString.simps [of n] parseNat_def digit_value_digit_char)
  next
    case False
    then have "parseNat (toString (n div 10)) = n div 10" using 1 by simp
    with False show ?thesis
      by (simp add: toString.simps [of n] parseNat_snoc digit_value_digit_char)
  qed
qed

lemma toString_inj: "toString a = toString b \<Longrightarrow> a = b"
  by (metis parseNat_toString)

text \<open>The no-break space is trimmed, and the accented capitals have a lower case.\<close>

lemma trim_no_break_space: "trim [CHR 0xA0, CHR ''h'', CHR ''i'', CHR 0xA0] = ''hi''"
  by (simp add: trim_def isWhitespace_def)

lemma toLowerCase_accented: "toLowerCase [CHR 0xC9, CHR ''A'', CHR 0xD7] = [CHR 0xE9, CHR ''a'', CHR 0xD7]"
  by (simp add: toLowerCase_def lower_char_def upper_chars_def lower_chars_def)

lemma room_id_not_general: "room_id t \<noteq> ''general''"
  by (simp add: room_id_def)

lemma room_id_inj: "(room_id a = room_id b) = (a = b)"
  using toString_inj by (auto simp: room_id_def)

section \<open>The example state\<close>

lemma alice_joined_eq:
  "alice_joined =
     \<lparr>users = [(''c1'', alice)], messages = [alice_joined_message],
      rooms = [(''general'', \<lparr>r_id = ''general'', r_name = ''General'', r_users = [alice],
                              r_createdAt = 0\<rparr>)],
      sockData = [''c1'' \<mapsto> alice], connected = [''c1'']\<rparr>"
  by (simp add: alice_joined_def user_join_def connection_def init_def defaultRoom_def alice_def
      alice_joined_message_def trim_def isWhitespace_def toLowerCase_def toString.simps
      digit_char_def Let_def slice_def)

section \<open>How a request reaches its handler\<close>

lemma step_Connect: "step s (sid, Connect) = connection s sid"
  by (simp add: step_def)

lemma step_Join:
  "step s (sid, Join username tJoined tId tStamp) =
     (if sid \<in> set (connected s) then user_join s sid username tJoined tId tStamp else (s, []))"
  by (simp add: step_def case_prod_beta)

lemma step_Send:
  "step s (sid, Send content tId tStamp) =
     (if sid \<in> set (connected s) then message_send s sid content tId tStamp else (s, []))"
  by (simp add: step_def case_prod_beta)

lemma step_GetHistory:
  "step s (sid, GetHistory limit) =
     (if sid \<in> set (connected s) then message_getHistory s sid limit else (s, []))"
  by (simp add: step_def case_prod_beta)

lemma step_CreateRoom:
  "step s (sid, CreateRoom name tId tCreated) =
     (if sid \<in> set (connected s) then room_create s sid name tId tCreated else (s, []))"
  by (simp add: step_def case_prod_beta)

lemma step_ListRooms:
  "step s (sid, ListRooms) = (if sid \<in> set (connected s) then room_list s sid else (s, []))"
  by (simp add: step_def case_prod_beta)

lemma step_TypingStart:
  "step s (sid, TypingStart) = (if sid \<in> set (connected s) then typing_start s sid else (s, []))"
  by (simp add: step_def case_prod_beta)

lemma step_TypingStop:
  "step s (sid, TypingStop) = (if sid \<in> set (connected s) then typing_stop s sid else (s, []))"
  by (simp add: step_def case_prod_beta)

lemma step_Disconnect:
  "step s (sid, Disconnect tId tStamp) =
     (if sid \<in> set (connected s) then
        ((fst (disconnect s sid tId tStamp))
           \<lparr>connected := removeAll sid (connected (fst (disconnect s sid tId tStamp)))\<rparr>,
         snd (disconnect s sid tId tStamp))
      else (s, []))"
  by (simp add: step_def case_prod_beta)

lemmas step_simps =
  step_Connect step_Join step_Send step_GetHistory step_CreateRoom step_ListRooms
  step_TypingStart step_TypingStop step_Disconnect

lemma alice_joined_run:
  "alice_joined = run (init 0) [(''c1'', Connect), (''c1'', Join ''alice'' 1 2 3)]"
  by (simp add: alice_joined_def step_simps connection_def init_def)

section \<open>What the handlers do\<close>

text \<open>The outcomes of a join.\<close>

lemma user_join_empty:
  "trim username = [] \<Longrightarrow>
   user_join s sid username tJoined tId tStamp =
     (s, [JoinCallback False (Some ''Username cannot be empty'')])"
  by (simp add: user_join_def)

lemma user_join_taken:
  assumes "trim username \<noteq> []"
    and "list_ex (\<lambda>v. toLowerCase (u_username v) = toLowerCase username) (map snd (users s))"
  shows "user_join s sid username tJoined tId tStamp =
     (s, [JoinCallback False (Some ''Username already taken'')])"
proof -
  from assms(2) obtain x where
    "find (\<lambda>v. toLowerCase (u_username v) = toLowerCase username) (map snd (users s)) = Some x"
    unfolding list_ex_iff
    by (cases "find (\<lambda>v. toLowerCase (u_username v) = toLowerCase username) (map snd (users s))")
       (simp_all add: find_None_iff)
  moreover from assms(1) have "username \<noteq> []" by (auto simp: trim_def)
  ultimately show ?thesis
    using assms(1) by (simp add: user_join_def)
qed

lemma user_join_success:
  assumes "trim username \<noteq> []"
    and "find (\<lambda>v. toLowerCase (u_username v) = toLowerCase username) (map snd (users s)) = None"
    and "map_of (rooms s) ''general'' = Some g"
  shows "user_join s sid username tJoined tId tStamp =
     (s\<lparr>users := AList.update sid \<lparr>u_id = sid, u_username = trim username, u_joinedAt = tJoined\<rparr> (users s),
        sockData := (sockData s)(sid \<mapsto> \<lparr>u_id = sid, u_username = trim username, u_joinedAt = tJoined\<rparr>),
        rooms := AList.update ''general''
                   (g\<lparr>r_users := r_users g @ [\<lparr>u_id = sid, u_username = trim username, u_joinedAt = tJoined\<rparr>]\<rparr>)
                   (rooms s),
        messages := messages s @
          [\<lparr>m_id = toString tId, m_userId = ''system'', m_username = ''System'',
            m_content = username @ '' joined the chat'', m_timestamp = tStamp, m_type = System\<rparr>]\<rparr>,
      [Emit (ToOthers sid) (UserJoined \<lparr>u_id = sid, u_username = trim username, u_joinedAt = tJoined\<rparr>),
       Emit (ToSocket sid) (UsersList (map snd
          (AList.update sid \<lparr>u_id = sid, u_username = trim username, u_joinedAt = tJoined\<rparr> (users s)))),
       Emit (ToSocket sid) (MessageHistory (slice (- 50) (messages s))),
       Emit ToAll (MessageNew
          \<lparr>m_id = toString tId, m_userId = ''system'', m_username = ''System'',
            m_content = username @ '' joined the chat'', m_timestamp = tStamp, m_type = System\<rparr>),
       JoinCallback True None])"
proof -
  from assms(1) have "username \<noteq> []" by (auto simp: trim_def)
  with assms show ?thesis
    by (simp add: user_join_def Let_def)
qed

lemma user_join_no_general:
  assumes "trim username \<noteq> []"
    and "find (\<lambda>v. toLowerCase (u_username v) = toLowerCase username) (map snd (users s)) = None"
    and "map_of (rooms s) ''general'' = None"
  shows "user_join s sid username tJoined tId tStamp =
     (s\<lparr>users := AList.update sid \<lparr>u_id = sid, u_username = trim username, u_joinedAt = tJoined\<rparr> (users s),
        sockData := (sockData s)(sid \<mapsto> \<lparr>u_id = sid, u_username = trim username, u_joinedAt = tJoined\<rparr>)\<rparr>,
      [JoinCallback False (Some ''Internal server error'')])"
proof -
  from assms(1) have "username \<noteq> []" by (auto simp: trim_def)
  with assms show ?thesis
    by (simp add: user_join_def Let_def)
qed

lemma user_join_cases:
  "fst (user_join s sid username tJoined tId tStamp) = s \<or>
   (\<exists>user. u_id user = sid \<and>
      users (fst (user_join s sid username tJoined tId tStamp)) = AList.update sid user (users s) \<and>
      (rooms (fst (user_join s sid username tJoined tId tStamp)) = rooms s \<or>
       (\<exists>g. map_of (rooms s) ''general'' = Some g \<and>
          rooms (fst (user_join s sid username tJoined tId tStamp)) =
            AList.update ''general'' (g\<lparr>r_users := r_users g @ [user]\<rparr>) (rooms s))))"
proof (cases "trim username = []")
  case True
  then show ?thesis by (simp add: user_join_empty)
next
  case ne: False
  show ?thesis
  proof (cases "list_ex (\<lambda>v. toLowerCase (u_username v) = toLowerCase username) (map snd (users s))")
    case True
    with ne show ?thesis by (simp add: user_join_taken)
  next
    case False
    then have f: "find (\<lambda>v. toLowerCase (u_username v) = toLowerCase username) (map snd (users s)) = None"
      by (simp add: find_None_iff list_ex_iff)
    let ?user = "\<lparr>u_id = sid, u_username = trim username, u_joinedAt = tJoined\<rparr>"
    have id: "u_id ?user = sid" by simp
    show ?thesis
    proof (cases "map_of (rooms s) ''general''")
      case None
      show ?thesis
        unfolding user_join_no_general [OF ne f None]
        by (rule disjI2, rule exI [of _ ?user]) simp
    next
      case (Some g)
      show ?thesis
        unfolding user_join_success [OF ne f Some]
        by (rule disjI2, rule exI [of _ ?user]) (simp add: Some)
    qed
  qed
qed

lemma user_join_sockData:
  "sockData (fst (user_join s sid username tJoined tId tStamp)) = sockData s \<or>
   sockData (fst (user_join s sid username tJoined tId tStamp)) =
     (sockData s)(sid \<mapsto> \<lparr>u_id = sid, u_username = trim username, u_joinedAt = tJoined\<rparr>)"
  by (simp add: user_join_def Let_def split: option.splits)

text \<open>A disconnect of a socket that has joined.\<close>

lemma disconnect_joined:
  "sockData s sid = Some u \<Longrightarrow>
   disconnect s sid tId tStamp =
     (s\<lparr>users := AList.delete sid (users s),
        rooms := map (\<lambda>(k, room).
                   (k, room\<lparr>r_users := filter (\<lambda>v. u_id v \<noteq> sid) (r_users room)\<rparr>)) (rooms s),
        messages := messages s @
          [\<lparr>m_id = toString tId, m_userId = ''system'', m_username = ''System'',
            m_content = u_username u @ '' left the chat'', m_timestamp = tStamp,
            m_type = System\<rparr>]\<rparr>,
      [Emit (ToOthers sid) (UserLeft u),
       Emit ToAll (MessageNew
          \<lparr>m_id = toString tId, m_userId = ''system'', m_username = ''System'',
            m_content = u_username u @ '' left the chat'', m_timestamp = tStamp,
            m_type = System\<rparr>)])"
  by (simp add: disconnect_def Let_def)

lemma registered_after_disconnect:
  "sockData s sid = Some u \<Longrightarrow>
   registered (fst (disconnect s sid tId tStamp)) c = (c \<noteq> sid \<and> registered s c)"
  by (simp add: disconnect_joined registered_def delete_conv)

lemma members_after_disconnect:
  "sockData s sid = Some u \<Longrightarrow>
   rooms (fst (disconnect s sid tId tStamp)) =
     map (\<lambda>(k, room). (k, room\<lparr>r_users := filter (\<lambda>v. u_id v \<noteq> sid) (r_users room)\<rparr>)) (rooms s)"
  by (simp add: disconnect_joined)

text \<open>\<open>Map.set\<close> under a new key adds the entry at the end.\<close>

lemma update_fresh: "map_of xs k = None \<Longrightarrow> AList.update k v xs = xs @ [(k, v)]"
  by (induction xs) (auto split: if_splits)

lemma set_update_subset: "set (AList.update k v al) \<subseteq> insert (k, v) (set al)"
  by (induction al) auto

text \<open>
  No handler of an event changes which sockets are connected: socket.io does, at a
  connection and at a disconnect.
\<close>

lemma handler_connected:
  "r \<noteq> Connect \<Longrightarrow> connected (fst (handler s sid r)) = connected s"
proof (cases r)
  case (Join username tJoined tId tStamp)
  then show ?thesis
    by (simp add: user_join_def Let_def split: option.splits)
next
  case (Send content tId tStamp)
  then show ?thesis
    by (simp add: message_send_def Let_def split: option.splits)
next
  case (GetHistory limit)
  then show ?thesis by (simp add: message_getHistory_def Let_def)
next
  case (CreateRoom name tId tCreated)
  then show ?thesis
    by (simp add: room_create_def Let_def split: option.splits)
next
  case ListRooms
  then show ?thesis by (simp add: room_list_def)
next
  case TypingStart
  then show ?thesis by (simp add: typing_start_def split: option.splits)
next
  case TypingStop
  then show ?thesis by (simp add: typing_stop_def)
next
  case (Disconnect tId tStamp)
  then show ?thesis
    by (simp add: disconnect_def Let_def split: option.splits)
qed simp

section \<open>Invariants of the states the server can be in\<close>

text \<open>
  \<open>socket.data.user\<close> is written by the join handler alone, and with the socket's own id:
  in every state a run reaches from the initial one, the participant stored on a socket
  carries that socket's id.
\<close>

lemma step_sockData:
  "sockData (fst (step s (sid, r))) = sockData s \<or>
   sockData (fst (step s (sid, r))) = (sockData s)(sid := None) \<or>
   (\<exists>v. u_id v = sid \<and> sockData (fst (step s (sid, r))) = (sockData s)(sid \<mapsto> v))"
proof (cases r)
  case Connect
  then show ?thesis by (simp add: step_simps connection_def)
next
  case (Join username tJoined tId tStamp)
  let ?v = "\<lparr>u_id = sid, u_username = trim username, u_joinedAt = tJoined\<rparr>"
  have v: "u_id ?v = sid" by simp
  show ?thesis
  proof (cases "sid \<in> set (connected s)")
    case True
    then have eq: "step s (sid, r) = user_join s sid username tJoined tId tStamp"
      using Join by (simp add: step_simps)
    show ?thesis
      unfolding eq using user_join_sockData [of s sid username tJoined tId tStamp] v by blast
  next
    case False
    with Join show ?thesis by (simp add: step_simps)
  qed
next
  case (Send content tId tStamp)
  then show ?thesis
    by (simp add: step_simps message_send_def Let_def split: option.splits)
next
  case (GetHistory limit)
  then show ?thesis by (simp add: step_simps message_getHistory_def Let_def)
next
  case (CreateRoom name tId tCreated)
  then show ?thesis
    by (simp add: step_simps room_create_def Let_def split: option.splits)
next
  case ListRooms
  then show ?thesis by (simp add: step_simps room_list_def)
next
  case TypingStart
  then show ?thesis by (simp add: step_simps typing_start_def split: option.splits)
next
  case TypingStop
  then show ?thesis by (simp add: step_simps typing_stop_def)
next
  case (Disconnect tId tStamp)
  then show ?thesis
    by (simp add: step_simps disconnect_def Let_def split: option.splits)
qed

lemma run_sockData_id:
  "\<forall>c v. sockData s c = Some v \<longrightarrow> u_id v = c \<Longrightarrow>
   \<forall>c v. sockData (run s es) c = Some v \<longrightarrow> u_id v = c"
proof (induction es arbitrary: s)
  case Nil
  then show ?case by simp
next
  case (Cons e es)
  obtain sid r where e: "e = (sid, r)" by (cases e)
  have inv: "\<forall>c v. sockData (fst (step s e)) c = Some v \<longrightarrow> u_id v = c"
  proof (intro allI impI)
    fix c v
    assume a: "sockData (fst (step s e)) c = Some v"
    from step_sockData [of s sid r] consider
      (same) "sockData (fst (step s (sid, r))) = sockData s"
      | (reset) "sockData (fst (step s (sid, r))) = (sockData s)(sid := None)"
      | (joined) w where "u_id w = sid" "sockData (fst (step s (sid, r))) = (sockData s)(sid \<mapsto> w)"
      by blast
    then show "u_id v = c"
    proof cases
      case same
      with a e have "sockData s c = Some v" by simp
      with Cons.prems show ?thesis by simp
    next
      case reset
      with a e have "sockData s c = Some v" by (simp split: if_splits)
      with Cons.prems show ?thesis by simp
    next
      case joined
      show ?thesis
      proof (cases "c = sid")
        case True
        with a e joined(2) have "v = w" by simp
        with joined(1) True show ?thesis by simp
      next
        case False
        with a e joined(2) have "sockData s c = Some v" by simp
        with Cons.prems show ?thesis by simp
      qed
    qed
  qed
  show ?case using Cons.IH [OF inv] by simp
qed

lemma reachable_sockData_id:
  "sockData (run (init t0) es) c = Some v \<Longrightarrow> u_id v = c"
proof -
  have "\<forall>c v. sockData (init t0) c = Some v \<longrightarrow> u_id v = c"
    by (simp add: init_def)
  then have "\<forall>c v. sockData (run (init t0) es) c = Some v \<longrightarrow> u_id v = c"
    by (rule run_sockData_id)
  then show "sockData (run (init t0) es) c = Some v \<Longrightarrow> u_id v = c"
    by blast
qed

text \<open>
  The members of a room are changed by a join, which adds the participant it has just
  registered to \<open>general\<close>, and by a disconnect, which removes the socket's participants
  from every room: I4 holds in every state a run reaches from the initial state. The
  room \<open>general\<close> is never removed, so the join handler's \<open>rooms.get('general')!\<close> finds
  it in every such state.
\<close>

lemma I4_iff:
  "I4 s = (\<forall>k room. (k, room) \<in> set (rooms s) \<longrightarrow>
             (\<forall>v \<in> set (r_users room). registered s (u_id v)))"
  by (auto simp: I4_def list_all_iff member_ids_def)

lemma I4_same:
  assumes "users s' = users s" and "rooms s' = rooms s"
  shows "I4 s' = I4 s"
proof -
  have "registered s' = registered s"
    using assms(1) by (simp add: fun_eq_iff registered_def)
  with assms(2) show ?thesis by (simp add: I4_def)
qed

lemma user_join_I4:
  assumes "I4 s"
  shows "I4 (fst (user_join s sid username tJoined tId tStamp))"
proof -
  let ?s' = "fst (user_join s sid username tJoined tId tStamp)"
  from user_join_cases [of s sid username tJoined tId tStamp]
  show ?thesis
  proof
    assume "?s' = s"
    with assms show ?thesis by simp
  next
    assume "\<exists>user. u_id user = sid \<and> users ?s' = AList.update sid user (users s) \<and>
      (rooms ?s' = rooms s \<or>
       (\<exists>g. map_of (rooms s) ''general'' = Some g \<and>
          rooms ?s' = AList.update ''general'' (g\<lparr>r_users := r_users g @ [user]\<rparr>) (rooms s)))"
    then obtain user where id: "u_id user = sid"
      and us: "users ?s' = AList.update sid user (users s)"
      and rs: "rooms ?s' = rooms s \<or>
       (\<exists>g. map_of (rooms s) ''general'' = Some g \<and>
          rooms ?s' = AList.update ''general'' (g\<lparr>r_users := r_users g @ [user]\<rparr>) (rooms s))"
      by blast
    have reg: "\<And>c. registered ?s' c = (c = sid \<or> registered s c)"
      by (simp add: registered_def us update_conv')
    show ?thesis
      unfolding I4_iff
    proof (intro allI impI ballI)
      fix k room v
      assume mem: "(k, room) \<in> set (rooms ?s')" and v: "v \<in> set (r_users room)"
      from rs show "registered ?s' (u_id v)"
      proof
        assume "rooms ?s' = rooms s"
        with mem v assms show ?thesis by (auto simp: I4_iff reg)
      next
        assume "\<exists>g. map_of (rooms s) ''general'' = Some g \<and>
          rooms ?s' = AList.update ''general'' (g\<lparr>r_users := r_users g @ [user]\<rparr>) (rooms s)"
        then obtain g where g: "map_of (rooms s) ''general'' = Some g"
          and r': "rooms ?s' = AList.update ''general'' (g\<lparr>r_users := r_users g @ [user]\<rparr>) (rooms s)"
          by blast
        from g have gin: "(''general'', g) \<in> set (rooms s)" by (rule map_of_SomeD)
        from mem r' set_update_subset
        have "(k, room) = (''general'', g\<lparr>r_users := r_users g @ [user]\<rparr>) \<or> (k, room) \<in> set (rooms s)"
          by fastforce
        then show ?thesis
        proof
          assume "(k, room) = (''general'', g\<lparr>r_users := r_users g @ [user]\<rparr>)"
          with v have "v = user \<or> v \<in> set (r_users g)" by auto
          with gin assms id show ?thesis by (auto simp: I4_iff reg)
        next
          assume "(k, room) \<in> set (rooms s)"
          with v assms show ?thesis by (auto simp: I4_iff reg)
        qed
      qed
    qed
  qed
qed

lemma room_create_I4:
  assumes "I4 s"
  shows "I4 (fst (room_create s sid name tId tCreated))"
proof (cases "sockData s sid")
  case None
  with assms show ?thesis by (simp add: room_create_def)
next
  case (Some u)
  let ?room = "\<lparr>r_id = ''room-'' @ toString tId, r_name = trim name, r_users = [],
                 r_createdAt = tCreated\<rparr>"
  let ?s' = "fst (room_create s sid name tId tCreated)"
  have us: "users ?s' = users s"
    and rs: "rooms ?s' = AList.update (''room-'' @ toString tId) ?room (rooms s)"
    using Some by (simp_all add: room_create_def Let_def)
  have reg: "\<And>c. registered ?s' c = registered s c"
    by (simp add: registered_def us)
  show ?thesis
    unfolding I4_iff
  proof (intro allI impI ballI)
    fix k room v
    assume mem: "(k, room) \<in> set (rooms ?s')" and v: "v \<in> set (r_users room)"
    from mem rs set_update_subset
    have "(k, room) = (''room-'' @ toString tId, ?room) \<or> (k, room) \<in> set (rooms s)"
      by fastforce
    then show "registered ?s' (u_id v)"
    proof
      assume "(k, room) = (''room-'' @ toString tId, ?room)"
      with v show ?thesis by simp
    next
      assume "(k, room) \<in> set (rooms s)"
      with v assms show ?thesis by (auto simp: I4_iff reg)
    qed
  qed
qed

lemma disconnect_I4:
  assumes "I4 s"
  shows "I4 (fst (disconnect s sid tId tStamp))"
proof (cases "sockData s sid")
  case None
  with assms show ?thesis by (simp add: disconnect_def)
next
  case (Some u)
  from assms show ?thesis
    unfolding I4_def members_after_disconnect [OF Some]
    by (simp add: list_all_iff member_ids_def case_prod_beta registered_after_disconnect [OF Some])
qed

lemma step_I4:
  assumes "I4 s"
  shows "I4 (fst (step s (sid, r)))"
proof (cases "r = Connect \<or> sid \<in> set (connected s)")
  case False
  with assms show ?thesis by (cases r) (simp_all add: step_simps)
next
  case True
  show ?thesis
  proof (cases r)
    case Connect
    have "I4 (fst (connection s sid)) = I4 s"
      by (rule I4_same) (simp_all add: connection_def)
    with assms Connect show ?thesis by (simp add: step_simps)
  next
    case (Join username tJoined tId tStamp)
    with assms True show ?thesis by (simp add: step_simps user_join_I4)
  next
    case (Send content tId tStamp)
    have "I4 (fst (message_send s sid content tId tStamp)) = I4 s"
      by (rule I4_same) (simp_all add: message_send_def Let_def split: option.splits)
    with assms Send show ?thesis by (simp add: step_simps)
  next
    case (GetHistory limit)
    with assms show ?thesis by (simp add: step_simps message_getHistory_def Let_def)
  next
    case (CreateRoom name tId tCreated)
    with assms show ?thesis by (simp add: step_simps room_create_I4)
  next
    case ListRooms
    with assms show ?thesis by (simp add: step_simps room_list_def)
  next
    case TypingStart
    with assms show ?thesis by (simp add: step_simps typing_start_def split: option.splits)
  next
    case TypingStop
    with assms show ?thesis by (simp add: step_simps typing_stop_def)
  next
    case (Disconnect tId tStamp)
    let ?d = "fst (disconnect s sid tId tStamp)"
    have "I4 (?d\<lparr>connected := removeAll sid (connected ?d)\<rparr>) = I4 ?d"
      by (rule I4_same) simp_all
    with assms Disconnect show ?thesis by (simp add: step_simps disconnect_I4)
  qed
qed

lemma run_I4: "I4 s \<Longrightarrow> I4 (run s es)"
proof (induction es arbitrary: s)
  case Nil
  then show ?case by simp
next
  case (Cons e es)
  obtain sid r where e: "e = (sid, r)" by (cases e)
  have "I4 (fst (step s e))"
    unfolding e using Cons.prems by (rule step_I4)
  then have "I4 (run (fst (step s e)) es)" by (rule Cons.IH)
  then show ?case by simp
qed

lemma reachable_I4: "I4 (run (init t0) es)"
proof -
  have "I4 (init t0)" by (simp add: I4_def init_def defaultRoom_def member_ids_def)
  then show ?thesis by (rule run_I4)
qed

text \<open>The room \<open>general\<close> is never removed.\<close>

lemma step_general:
  assumes "map_of (rooms s) ''general'' \<noteq> None"
  shows "map_of (rooms (fst (step s (sid, r)))) ''general'' \<noteq> None"
proof (cases r)
  case Connect
  with assms show ?thesis by (simp add: step_simps connection_def)
next
  case (Join username tJoined tId tStamp)
  from user_join_cases [of s sid username tJoined tId tStamp] assms
  have "map_of (rooms (fst (user_join s sid username tJoined tId tStamp))) ''general'' \<noteq> None"
    by (auto simp: update_conv')
  with Join assms show ?thesis by (simp add: step_simps)
next
  case (Send content tId tStamp)
  with assms show ?thesis
    by (simp add: step_simps message_send_def Let_def split: option.splits)
next
  case (GetHistory limit)
  with assms show ?thesis by (simp add: step_simps message_getHistory_def Let_def)
next
  case (CreateRoom name tId tCreated)
  with assms show ?thesis
    by (simp add: step_simps room_create_def Let_def update_conv' split: option.splits)
next
  case ListRooms
  with assms show ?thesis by (simp add: step_simps room_list_def)
next
  case TypingStart
  with assms show ?thesis by (simp add: step_simps typing_start_def split: option.splits)
next
  case TypingStop
  with assms show ?thesis by (simp add: step_simps typing_stop_def)
next
  case (Disconnect tId tStamp)
  with assms show ?thesis
    by (simp add: step_simps disconnect_def Let_def map_of_map split: option.splits)
qed

lemma run_general:
  "map_of (rooms s) ''general'' \<noteq> None \<Longrightarrow> map_of (rooms (run s es)) ''general'' \<noteq> None"
proof (induction es arbitrary: s)
  case Nil
  then show ?case by simp
next
  case (Cons e es)
  obtain sid r where e: "e = (sid, r)" by (cases e)
  have "map_of (rooms (fst (step s e))) ''general'' \<noteq> None"
    unfolding e using Cons.prems by (rule step_general)
  then have "map_of (rooms (run (fst (step s e)) es)) ''general'' \<noteq> None" by (rule Cons.IH)
  then show ?case by simp
qed

lemma reachable_general: "\<exists>g. map_of (rooms (run (init t0) es)) ''general'' = Some g"
proof -
  have "map_of (rooms (init t0)) ''general'' \<noteq> None" by (simp add: init_def)
  then have "map_of (rooms (run (init t0) es)) ''general'' \<noteq> None" by (rule run_general)
  then show ?thesis by blast
qed

section \<open>Sending a message\<close>

text \<open>
  C5. A joined connection (its \<open>socket.data.user\<close> is set) that sends a content which is
  empty or consists of white space only gets the acknowledgement \<open>false\<close> and nothing
  else happens: the handler's effects are that one callback, so no message is broadcast,
  and the state (registry, rooms, log, socket data) is the one before.
\<close>

theorem blank_send_rejected:
  assumes "sockData s sid = Some u" and "list_all isWhitespace content"
  shows "message_send s sid content tId tStamp = (s, [SendCallback False])"
  using assms by (simp add: message_send_def trim_blank)

theorem blank_send_rejected_witness:
  "sockData alice_joined ''c1'' = Some alice \<and>
   list_all isWhitespace [CHR 0xA0, CHR '' '', CHR 0x09] \<and>
   message_send alice_joined ''c1'' [CHR 0xA0, CHR '' '', CHR 0x09] 7 8 =
     (alice_joined, [SendCallback False])"
proof -
  have j: "sockData alice_joined ''c1'' = Some alice" by (simp add: alice_joined_eq)
  have b: "list_all isWhitespace [CHR 0xA0, CHR '' '', CHR 0x09]" by (simp add: isWhitespace_def)
  show ?thesis using j b blank_send_rejected [OF j b, of 7 8] by simp
qed

text \<open>
  C10. A send from a joined connection with a content that is not blank appends one
  message and broadcasts that same message to every socket with \<open>io.emit\<close>, then
  acknowledges \<open>true\<close>. The message's content is the trimmed input: the input is the
  content between two runs of white space, and the content neither starts nor ends with
  white space. The message carries the id and the username of the participant stored on
  the socket and the type \<open>text\<close>; in a state reached by a run from the initial state the
  stored id is the id of the sending socket.
\<close>

theorem send_appends_trimmed_message:
  assumes "sockData s sid = Some u" and "trim content \<noteq> []"
  shows "\<exists>m pre post.
           message_send s sid content tId tStamp =
             (s\<lparr>messages := messages s @ [m]\<rparr>, [Emit ToAll (MessageNew m), SendCallback True]) \<and>
           m_content m = trim content \<and>
           content = pre @ m_content m @ post \<and>
           list_all isWhitespace pre \<and> list_all isWhitespace post \<and>
           \<not> isWhitespace (hd (m_content m)) \<and> \<not> isWhitespace (last (m_content m)) \<and>
           m_userId m = u_id u \<and> m_username m = u_username u \<and> m_type m = Text \<and>
           ((\<exists>t0 es. s = run (init t0) es) \<longrightarrow> m_userId m = sid)"
proof -
  let ?m = "\<lparr>m_id = toString tId, m_userId = u_id u, m_username = u_username u,
             m_content = trim content, m_timestamp = tStamp, m_type = Text\<rparr>"
  let ?pre = "takeWhile isWhitespace content"
  let ?post = "rev (takeWhile isWhitespace (rev (dropWhile isWhitespace content)))"
  from assms(2) have ne: "content \<noteq> []" by (auto simp: trim_def)
  have run: "message_send s sid content tId tStamp =
      (s\<lparr>messages := messages s @ [?m]\<rparr>, [Emit ToAll (MessageNew ?m), SendCallback True])"
    using assms ne by (simp add: message_send_def Let_def)
  have mc: "m_content ?m = trim content" by simp
  have pre: "list_all isWhitespace ?pre"
    unfolding list_all_iff by (meson set_takeWhileD)
  have post: "list_all isWhitespace ?post"
    unfolding list_all_iff set_rev by (meson set_takeWhileD)
  show ?thesis
  proof (rule exI [of _ ?m], rule exI [of _ ?pre], rule exI [of _ ?post], intro conjI)
    show "message_send s sid content tId tStamp =
      (s\<lparr>messages := messages s @ [?m]\<rparr>, [Emit ToAll (MessageNew ?m), SendCallback True])"
      by (rule run)
    show "m_content ?m = trim content" by (rule mc)
    show "content = ?pre @ m_content ?m @ ?post"
      unfolding mc by (rule trim_decomp)
    show "list_all isWhitespace ?pre" by (rule pre)
    show "list_all isWhitespace ?post" by (rule post)
    show "\<not> isWhitespace (hd (m_content ?m))"
      unfolding mc using assms(2) by (rule trim_hd)
    show "\<not> isWhitespace (last (m_content ?m))"
      unfolding mc using assms(2) by (rule trim_last)
    show "m_userId ?m = u_id u" by simp
    show "m_username ?m = u_username u" by simp
    show "m_type ?m = Text" by simp
    show "(\<exists>t0 es. s = run (init t0) es) \<longrightarrow> m_userId ?m = sid"
      using assms(1) by (auto dest: reachable_sockData_id)
  qed
qed

theorem send_appends_trimmed_message_witness:
  "sockData alice_joined ''c1'' = Some alice \<and> trim [CHR 0xA0, CHR ''h'', CHR ''i'', CHR '' ''] \<noteq> [] \<and>
   (\<exists>m. message_send alice_joined ''c1'' [CHR 0xA0, CHR ''h'', CHR ''i'', CHR '' ''] 7 8 =
          (alice_joined\<lparr>messages := messages alice_joined @ [m]\<rparr>,
           [Emit ToAll (MessageNew m), SendCallback True]) \<and>
        m_content m = ''hi'' \<and> m_userId m = ''c1'' \<and> m_username m = ''alice'' \<and>
        m_type m = Text)"
proof -
  have j: "sockData alice_joined ''c1'' = Some alice" by (simp add: alice_joined_eq)
  have t: "trim [CHR 0xA0, CHR ''h'', CHR ''i'', CHR '' ''] = ''hi''" by (simp add: trim_def isWhitespace_def)
  then have ne: "trim [CHR 0xA0, CHR ''h'', CHR ''i'', CHR '' ''] \<noteq> []" by simp
  from send_appends_trimmed_message [OF j ne, of 7 8]
  obtain m where
    "message_send alice_joined ''c1'' [CHR 0xA0, CHR ''h'', CHR ''i'', CHR '' ''] 7 8 =
       (alice_joined\<lparr>messages := messages alice_joined @ [m]\<rparr>,
        [Emit ToAll (MessageNew m), SendCallback True])"
    and "m_content m = trim [CHR 0xA0, CHR ''h'', CHR ''i'', CHR '' '']" and "m_userId m = u_id alice"
    and "m_username m = u_username alice" and "m_type m = Text"
    by blast
  then have "message_send alice_joined ''c1'' [CHR 0xA0, CHR ''h'', CHR ''i'', CHR '' ''] 7 8 =
          (alice_joined\<lparr>messages := messages alice_joined @ [m]\<rparr>,
           [Emit ToAll (MessageNew m), SendCallback True]) \<and>
        m_content m = ''hi'' \<and> m_userId m = ''c1'' \<and> m_username m = ''alice'' \<and>
        m_type m = Text"
    by (simp only: t) (simp add: alice_def)
  then show ?thesis using j ne by blast
qed

section \<open>Joining\<close>

text \<open>
  C1. The spec asks that a join whose requested name, once trimmed, equals a registered
  username up to case be refused with \<open>Username already taken\<close>. The handler compares
  the registered names with the requested name as it was sent, and stores the trimmed
  one. At the input below socket \<open>c2\<close> asks for \<open>'' alice''\<close> while \<open>c1\<close> is registered
  as \<open>alice\<close>: the comparison sees two different strings, the join is acknowledged with
  \<open>true\<close>, and the registry holds the username \<open>alice\<close> twice.
\<close>

theorem join_untrimmed_name_registers_duplicate:
  "user_join alice_joined ''c2'' '' alice'' 4 5 6 =
     (alice_joined
        \<lparr>users := [(''c1'', alice), (''c2'', \<lparr>u_id = ''c2'', u_username = ''alice'', u_joinedAt = 4\<rparr>)],
         sockData := [''c1'' \<mapsto> alice, ''c2'' \<mapsto> \<lparr>u_id = ''c2'', u_username = ''alice'', u_joinedAt = 4\<rparr>],
         rooms := [(''general'', \<lparr>r_id = ''general'', r_name = ''General'',
                     r_users = [alice, \<lparr>u_id = ''c2'', u_username = ''alice'', u_joinedAt = 4\<rparr>],
                     r_createdAt = 0\<rparr>)],
         messages := [alice_joined_message,
                      \<lparr>m_id = ''5'', m_userId = ''system'', m_username = ''System'',
                       m_content = '' alice joined the chat'', m_timestamp = 6, m_type = System\<rparr>]\<rparr>,
      [Emit (ToOthers ''c2'') (UserJoined \<lparr>u_id = ''c2'', u_username = ''alice'', u_joinedAt = 4\<rparr>),
       Emit (ToSocket ''c2'') (UsersList [alice, \<lparr>u_id = ''c2'', u_username = ''alice'', u_joinedAt = 4\<rparr>]),
       Emit (ToSocket ''c2'') (MessageHistory [alice_joined_message]),
       Emit ToAll (MessageNew \<lparr>m_id = ''5'', m_userId = ''system'', m_username = ''System'',
                       m_content = '' alice joined the chat'', m_timestamp = 6, m_type = System\<rparr>),
       JoinCallback True None])"
  by (simp add: alice_joined_eq user_join_def alice_def
      trim_def isWhitespace_def toLowerCase_def lower_char_def upper_chars_def lower_chars_def
      toString.simps
      digit_char_def Let_def slice_def)

text \<open>The same through socket.io: both sockets connect, and both joins are accepted.\<close>

lemma join_untrimmed_name_run:
  "map (\<lambda>(c, v). (c, u_username v))
     (users (run (init 0)
        [(''c1'', Connect), (''c1'', Join ''alice'' 1 2 3),
         (''c2'', Connect), (''c2'', Join '' alice'' 4 5 6)])) =
     [(''c1'', ''alice''), (''c2'', ''alice'')]"
proof -
  have "run (init 0)
        [(''c1'', Connect), (''c1'', Join ''alice'' 1 2 3),
         (''c2'', Connect), (''c2'', Join '' alice'' 4 5 6)] =
      run alice_joined [(''c2'', Connect), (''c2'', Join '' alice'' 4 5 6)]"
    by (simp add: alice_joined_def step_simps connection_def init_def)
  then show ?thesis
    by (simp add: step_simps connection_def alice_joined_eq user_join_def alice_def
      trim_def isWhitespace_def toLowerCase_def lower_char_def upper_chars_def lower_chars_def
      Let_def)
qed

text \<open>
  C9, as the spec states it, fails: the first thing a successful join sends is the
  \<open>user:joined\<close> broadcast to the other sockets, before the two unicasts to the
  requester.
\<close>

theorem join_broadcast_precedes_unicasts:
  "\<not> all_before (requester_unicast ''c1'') broadcast
       (snd (user_join (init 0) ''c1'' ''alice'' 1 2 3))"
  by (simp add: user_join_def init_def defaultRoom_def Let_def trim_def isWhitespace_def)

text \<open>
  C9, amended. A successful join sends, in this order: \<open>user:joined\<close> to every socket
  but the requester, the participant snapshot to the requester, the message history to
  the requester, the system message to every socket, the acknowledgement. The snapshot
  and the history precede every broadcast of the join that reaches the requester; the
  broadcast that precedes them does not reach the requester.
\<close>

theorem join_unicasts_before_own_broadcast:
  assumes "trim username \<noteq> []"
    and "find (\<lambda>v. toLowerCase (u_username v) = toLowerCase username) (map snd (users s)) = None"
    and "map_of (rooms s) ''general'' = Some g"
  shows "\<exists>user snapshot history message.
           snd (user_join s sid username tJoined tId tStamp) =
             [Emit (ToOthers sid) (UserJoined user),
              Emit (ToSocket sid) (UsersList snapshot),
              Emit (ToSocket sid) (MessageHistory history),
              Emit ToAll (MessageNew message),
              JoinCallback True None] \<and>
           \<not> broadcast_reaching sid (Emit (ToOthers sid) (UserJoined user)) \<and>
           all_before (requester_unicast sid) (broadcast_reaching sid)
             (snd (user_join s sid username tJoined tId tStamp))"
  unfolding user_join_success [OF assms] by simp

theorem join_unicasts_before_own_broadcast_witness:
  "trim ''alice'' \<noteq> [] \<and>
   find (\<lambda>v. toLowerCase (u_username v) = toLowerCase ''alice'') (map snd (users (init 0))) = None \<and>
   map_of (rooms (init 0)) ''general'' = Some (defaultRoom 0) \<and>
   all_before (requester_unicast ''c1'') (broadcast_reaching ''c1'')
     (snd (user_join (init 0) ''c1'' ''alice'' 1 2 3))"
proof -
  have t: "trim ''alice'' \<noteq> []" by (simp add: trim_def isWhitespace_def)
  have f: "find (\<lambda>v. toLowerCase (u_username v) = toLowerCase ''alice'') (map snd (users (init 0))) = None"
    by (simp add: init_def)
  have g: "map_of (rooms (init 0)) ''general'' = Some (defaultRoom 0)"
    by (simp add: init_def)
  show ?thesis
    using t f g join_unicasts_before_own_broadcast [OF t f g, of "''c1''" 1 2 3] by blast
qed

text \<open>
  C3, as the spec states it, fails: the join handler does not look at
  \<open>socket.data.user\<close>, and a socket that has joined as \<open>alice\<close> joins again as \<open>bob\<close>.
\<close>

theorem second_join_on_joined_connection_accepted:
  "sockData alice_joined ''c1'' = Some alice \<and>
   last (snd (user_join alice_joined ''c1'' ''bob'' 4 5 6)) = JoinCallback True None \<and>
   users (fst (user_join alice_joined ''c1'' ''bob'' 4 5 6)) =
     [(''c1'', \<lparr>u_id = ''c1'', u_username = ''bob'', u_joinedAt = 4\<rparr>)]"
  by (simp add: alice_joined_eq user_join_def alice_def
      trim_def isWhitespace_def toLowerCase_def lower_char_def upper_chars_def lower_chars_def
      Let_def)

text \<open>
  C3, amended. A join request on a socket that has already joined is handled as any
  join; the code has no error for it. It is refused with \<open>Username cannot be empty\<close>
  when the trimmed name is empty, and refused with \<open>Username already taken\<close> when the
  requested name equals a registered username up to case, both without a change of
  state; when it equals none, it is acknowledged with \<open>true\<close>, and the socket's entry in
  the registry and its socket data are replaced by a participant with the trimmed name.
  The statement is about requested names for which the name as sent and the trimmed name
  agree on whether they equal a registered username; for the others it says nothing.
\<close>

theorem join_on_joined_connection:
  assumes "sockData s sid = Some u" and "map_of (rooms s) ''general'' = Some g"
  shows "(trim username = [] \<longrightarrow>
            user_join s sid username tJoined tId tStamp =
              (s, [JoinCallback False (Some ''Username cannot be empty'')])) \<and>
         (trim username \<noteq> [] \<and> name_taken s username \<and> name_taken s (trim username) \<longrightarrow>
            user_join s sid username tJoined tId tStamp =
              (s, [JoinCallback False (Some ''Username already taken'')])) \<and>
         (trim username \<noteq> [] \<and> \<not> name_taken s username \<and> \<not> name_taken s (trim username) \<longrightarrow>
            last (snd (user_join s sid username tJoined tId tStamp)) = JoinCallback True None \<and>
            users (fst (user_join s sid username tJoined tId tStamp)) =
              AList.update sid \<lparr>u_id = sid, u_username = trim username, u_joinedAt = tJoined\<rparr> (users s) \<and>
            sockData (fst (user_join s sid username tJoined tId tStamp)) sid =
              Some \<lparr>u_id = sid, u_username = trim username, u_joinedAt = tJoined\<rparr>)"
proof (intro conjI impI)
  assume "trim username = []"
  then show "user_join s sid username tJoined tId tStamp =
      (s, [JoinCallback False (Some ''Username cannot be empty'')])"
    by (rule user_join_empty)
next
  assume "trim username \<noteq> [] \<and> name_taken s username \<and> name_taken s (trim username)"
  then show "user_join s sid username tJoined tId tStamp =
      (s, [JoinCallback False (Some ''Username already taken'')])"
    by (simp add: user_join_taken name_taken_def)
next
  assume a: "trim username \<noteq> [] \<and> \<not> name_taken s username \<and> \<not> name_taken s (trim username)"
  then have ne: "trim username \<noteq> []" by simp
  from a have f: "find (\<lambda>v. toLowerCase (u_username v) = toLowerCase username) (map snd (users s)) = None"
    by (simp add: name_taken_def find_None_iff list_ex_iff)
  note ok = user_join_success [OF ne f assms(2)]
  show "last (snd (user_join s sid username tJoined tId tStamp)) = JoinCallback True None"
    by (simp add: ok)
  show "users (fst (user_join s sid username tJoined tId tStamp)) =
      AList.update sid \<lparr>u_id = sid, u_username = trim username, u_joinedAt = tJoined\<rparr> (users s)"
    by (simp add: ok)
  show "sockData (fst (user_join s sid username tJoined tId tStamp)) sid =
      Some \<lparr>u_id = sid, u_username = trim username, u_joinedAt = tJoined\<rparr>"
    by (simp add: ok)
qed

theorem join_on_joined_connection_witness:
  "sockData alice_joined ''c1'' = Some alice \<and>
   map_of (rooms alice_joined) ''general'' =
     Some \<lparr>r_id = ''general'', r_name = ''General'', r_users = [alice], r_createdAt = 0\<rparr> \<and>
   trim [CHR 0xA0] = [] \<and>
   user_join alice_joined ''c1'' [CHR 0xA0] 4 5 6 =
     (alice_joined, [JoinCallback False (Some ''Username cannot be empty'')]) \<and>
   trim ''ALICE'' \<noteq> [] \<and> name_taken alice_joined ''ALICE'' \<and>
   name_taken alice_joined (trim ''ALICE'') \<and>
   user_join alice_joined ''c1'' ''ALICE'' 4 5 6 =
     (alice_joined, [JoinCallback False (Some ''Username already taken'')]) \<and>
   trim ''bob'' \<noteq> [] \<and> \<not> name_taken alice_joined ''bob'' \<and>
   \<not> name_taken alice_joined (trim ''bob'') \<and>
   last (snd (user_join alice_joined ''c1'' ''bob'' 4 5 6)) = JoinCallback True None \<and>
   sockData (fst (user_join alice_joined ''c1'' ''bob'' 4 5 6)) ''c1'' =
     Some \<lparr>u_id = ''c1'', u_username = ''bob'', u_joinedAt = 4\<rparr>"
proof -
  have j: "sockData alice_joined ''c1'' = Some alice" by (simp add: alice_joined_eq)
  have g: "map_of (rooms alice_joined) ''general'' =
     Some \<lparr>r_id = ''general'', r_name = ''General'', r_users = [alice], r_createdAt = 0\<rparr>"
    by (simp add: alice_joined_eq)
  have e: "trim [CHR 0xA0] = []" by (simp add: trim_def isWhitespace_def)
  have ta: "trim ''ALICE'' = ''ALICE''" by (simp add: trim_def isWhitespace_def)
  have na: "name_taken alice_joined ''ALICE''"
    by (simp add: name_taken_def alice_joined_eq alice_def toLowerCase_def lower_char_def
        upper_chars_def lower_chars_def)
  have tb: "trim ''bob'' = ''bob''" by (simp add: trim_def isWhitespace_def)
  have nb: "\<not> name_taken alice_joined ''bob''"
    by (simp add: name_taken_def alice_joined_eq alice_def toLowerCase_def lower_char_def
        upper_chars_def lower_chars_def)
  show ?thesis
    using j g e na nb
      join_on_joined_connection [OF j g, of "[CHR 0xA0]" 4 5 6]
      join_on_joined_connection [OF j g, of "''ALICE''" 4 5 6]
      join_on_joined_connection [OF j g, of "''bob''" 4 5 6]
    by (simp only: ta tb) simp
qed

section \<open>Reading the history\<close>

text \<open>
  For a limit of at least 1 the handler sends the last \<open>min n len\<close> messages, oldest
  first, and an omitted limit is 50.
\<close>

lemma slice_last:
  "0 < n \<Longrightarrow> slice (- int n) xs = drop (length xs - n) xs"
  by (simp add: slice_def Let_def max_def nat_diff_distrib')

lemma getHistory_positive:
  "0 < n \<Longrightarrow> message_getHistory s sid (Some (int n)) =
     (s, [Emit (ToSocket sid) (MessageHistory (drop (length (messages s) - n) (messages s)))])"
  by (simp add: message_getHistory_def Let_def slice_last)

lemma getHistory_default:
  "message_getHistory s sid None = message_getHistory s sid (Some 50)"
  by (simp add: message_getHistory_def)

text \<open>
  C4. The spec asks for the last \<open>min n len\<close> messages for every limit \<open>n\<close>. For the
  limit 0 that is no message; the handler evaluates \<open>messages.slice(-0)\<close>, which is
  \<open>messages.slice(0)\<close>, and sends the whole log.
\<close>

theorem getHistory_zero_returns_whole_log:
  "message_getHistory alice_joined ''c1'' (Some 0) =
     (alice_joined, [Emit (ToSocket ''c1'') (MessageHistory [alice_joined_message])])"
  by (simp add: message_getHistory_def Let_def slice_def alice_joined_eq)

section \<open>Disconnecting\<close>


lemma step_not_connected:
  "sid \<notin> set (connected s) \<Longrightarrow> r \<noteq> Connect \<Longrightarrow> step s (sid, r) = (s, [])"
  by (cases r) (simp_all add: step_simps)

lemma step_keeps_closed:
  assumes "sid \<notin> set (connected s)" and "e \<noteq> (sid, Connect)"
  shows "sid \<notin> set (connected (fst (step s e)))"
proof -
  obtain c r where e: "e = (c, r)" by (cases e)
  show ?thesis
  proof (cases "r = Connect")
    case True
    with assms e show ?thesis by (auto simp: step_simps connection_def)
  next
    case False
    show ?thesis
    proof (cases "c \<in> set (connected s)")
      case False
      with \<open>r \<noteq> Connect\<close> assms(1) e show ?thesis by (simp add: step_not_connected)
    next
      case True
      have "set (connected (fst (step s (c, r)))) \<subseteq> set (connected (fst (handler s c r)))"
        using True \<open>r \<noteq> Connect\<close> by (cases r) (auto simp: step_simps)
      with assms(1) handler_connected [OF \<open>r \<noteq> Connect\<close>, of s c] e show ?thesis by auto
    qed
  qed
qed

lemma run_keeps_closed:
  "sid \<notin> set (connected s) \<Longrightarrow> (sid, Connect) \<notin> set es \<Longrightarrow> sid \<notin> set (connected (run s es))"
proof (induction es arbitrary: s)
  case Nil
  then show ?case by simp
next
  case (Cons e es)
  from Cons.prems have "e \<noteq> (sid, Connect)" and rest: "(sid, Connect) \<notin> set es" by auto
  with Cons.prems(1) have "sid \<notin> set (connected (fst (step s e)))" by (simp add: step_keeps_closed)
  from Cons.IH [OF this rest] show ?case by simp
qed



text \<open>
  C7. After the disconnect of a joined socket, no room has a member with that socket's
  id, and the id is not registered. The disconnect restores I4: if before it every room
  member other than this socket was registered, then afterwards every member of every
  room is registered; and in a state reached by a run from the initial state, I4 holds
  after the disconnect.
\<close>

theorem disconnect_clears_membership:
  assumes "sockData s sid = Some u"
  shows "list_all (\<lambda>(k, room). sid \<notin> set (member_ids room))
           (rooms (fst (disconnect s sid tId tStamp))) \<and>
         \<not> registered (fst (disconnect s sid tId tStamp)) sid \<and>
         (list_all (\<lambda>(k, room). list_all (\<lambda>c. c = sid \<or> registered s c) (member_ids room)) (rooms s)
            \<longrightarrow> I4 (fst (disconnect s sid tId tStamp))) \<and>
         ((\<exists>t0 es. s = run (init t0) es) \<longrightarrow> I4 (fst (disconnect s sid tId tStamp)))"
proof (intro conjI impI)
  show "list_all (\<lambda>(k, room). sid \<notin> set (member_ids room))
           (rooms (fst (disconnect s sid tId tStamp)))"
    unfolding members_after_disconnect [OF assms]
    by (simp add: list_all_iff member_ids_def case_prod_beta) blast
  show "\<not> registered (fst (disconnect s sid tId tStamp)) sid"
    by (simp add: registered_after_disconnect [OF assms])
  show "I4 (fst (disconnect s sid tId tStamp))"
    if "list_all (\<lambda>(k, room). list_all (\<lambda>c. c = sid \<or> registered s c) (member_ids room)) (rooms s)"
    using that unfolding I4_def members_after_disconnect [OF assms]
    by (simp add: list_all_iff member_ids_def case_prod_beta registered_after_disconnect [OF assms])
       blast
  show "I4 (fst (disconnect s sid tId tStamp))" if "\<exists>t0 es. s = run (init t0) es"
  proof -
    from that obtain t0 es where "s = run (init t0) es" by blast
    then have "I4 s" by (simp add: reachable_I4)
    then show ?thesis by (rule disconnect_I4)
  qed
qed

theorem disconnect_clears_membership_witness:
  "sockData alice_joined ''c1'' = Some alice \<and>
   map (\<lambda>(k, room). member_ids room) (rooms alice_joined) = [[''c1'']] \<and>
   map (\<lambda>(k, room). member_ids room) (rooms (fst (disconnect alice_joined ''c1'' 7 8))) = [[]] \<and>
   \<not> registered (fst (disconnect alice_joined ''c1'' 7 8)) ''c1'' \<and>
   I4 (fst (disconnect alice_joined ''c1'' 7 8))"
proof -
  have j: "sockData alice_joined ''c1'' = Some alice" by (simp add: alice_joined_eq)
  have m: "map (\<lambda>(k, room). member_ids room) (rooms alice_joined) = [[''c1'']]"
    by (simp add: alice_joined_eq member_ids_def alice_def)
  have m': "map (\<lambda>(k, room). member_ids room) (rooms (fst (disconnect alice_joined ''c1'' 7 8))) = [[]]"
    by (simp add: members_after_disconnect [OF j]) (simp add: alice_joined_eq member_ids_def alice_def)
  have pre: "list_all (\<lambda>(k, room). list_all (\<lambda>c. c = ''c1'' \<or> registered alice_joined c) (member_ids room))
      (rooms alice_joined)"
    by (simp add: alice_joined_eq member_ids_def alice_def)
  show ?thesis
    using j m m' pre disconnect_clears_membership [OF j, of 7 8] by blast
qed

section \<open>Creating a room\<close>

text \<open>
  The keys of \<open>rooms\<close> change only when a \<open>room:create\<close> runs on a socket that has
  joined: the id made from its clock reading is added at the end, unless a room has it.
\<close>

lemma keys_map_values: "map fst (map (\<lambda>(k, v). (k, f v)) xs) = map fst xs"
  by (induction xs) auto

lemma user_join_keys:
  "map fst (rooms (fst (user_join s sid username tJoined tId tStamp))) = map fst (rooms s)"
proof -
  from user_join_cases [of s sid username tJoined tId tStamp]
  consider "fst (user_join s sid username tJoined tId tStamp) = s"
    | "rooms (fst (user_join s sid username tJoined tId tStamp)) = rooms s"
    | g v where "map_of (rooms s) ''general'' = Some g"
        "rooms (fst (user_join s sid username tJoined tId tStamp)) =
           AList.update ''general'' v (rooms s)"
    by blast
  then show ?thesis
  proof cases
    case 3
    from 3(1) have "''general'' \<in> set (map fst (rooms s))"
      by (metis map_of_eq_None_iff option.distinct(1) set_map)
    with 3(2) show ?thesis by (simp add: update_keys)
  qed simp_all
qed

lemma disconnect_keys:
  "map fst (rooms (fst (disconnect s sid tId tStamp))) = map fst (rooms s)"
proof (cases "sockData s sid")
  case None
  then show ?thesis by (simp add: disconnect_def)
next
  case (Some u)
  show ?thesis
    by (simp only: members_after_disconnect [OF Some] keys_map_values)
qed

lemma step_room_keys:
  "map fst (rooms (fst (step s e))) =
     map fst (rooms s) @
     filter (\<lambda>k. k \<notin> set (map fst (rooms s))) (map room_id (room_reading s e))"
proof -
  obtain sid r where e: "e = (sid, r)" by (cases e)
  show ?thesis
  proof (cases r)
    case Connect
    with e show ?thesis by (simp add: step_simps connection_def room_reading_def)
  next
    case (Join username tJoined tId tStamp)
    with e show ?thesis by (simp add: step_simps user_join_keys room_reading_def)
  next
    case (Send content tId tStamp)
    with e show ?thesis
      by (simp add: step_simps message_send_def Let_def room_reading_def split: option.splits)
  next
    case (GetHistory limit)
    with e show ?thesis by (simp add: step_simps message_getHistory_def Let_def room_reading_def)
  next
    case (CreateRoom name tId tCreated)
    with e show ?thesis
      by (simp add: step_simps room_create_def Let_def room_reading_def room_id_def update_keys
          split: option.splits)
  next
    case ListRooms
    with e show ?thesis by (simp add: step_simps room_list_def room_reading_def)
  next
    case TypingStart
    with e show ?thesis
      by (simp add: step_simps typing_start_def room_reading_def split: option.splits)
  next
    case TypingStop
    with e show ?thesis by (simp add: step_simps typing_stop_def room_reading_def)
  next
    case (Disconnect tId tStamp)
    with e show ?thesis
      by (simp add: step_simps disconnect_keys room_reading_def)
  qed
qed

lemma run_room_keys_subset:
  "set (map fst (rooms (run s es))) \<subseteq> set (map fst (rooms s)) \<union> room_id ` set (room_readings s es)"
proof (induction es arbitrary: s)
  case Nil
  then show ?case by simp
next
  case (Cons e es)
  have one: "set (map fst (rooms (fst (step s e)))) \<subseteq>
      set (map fst (rooms s)) \<union> room_id ` set (room_reading s e)"
    unfolding step_room_keys [of s e] by auto
  have rest: "set (map fst (rooms (run (fst (step s e)) es))) \<subseteq>
      set (map fst (rooms (fst (step s e)))) \<union> room_id ` set (room_readings (fst (step s e)) es)"
    by (rule Cons.IH)
  from one rest show ?case
    by (simp only: run.simps room_readings.simps set_append image_Un) blast
qed

lemma run_room_keys_distinct:
  assumes "room_id ` set (room_readings s es) \<inter> set (map fst (rooms s)) = {}"
    and "distinct (room_readings s es)"
  shows "map fst (rooms (run s es)) = map fst (rooms s) @ map room_id (room_readings s es)"
  using assms
proof (induction es arbitrary: s)
  case Nil
  then show ?case by simp
next
  case (Cons e es)
  let ?s1 = "fst (step s e)"
  have new: "\<forall>k \<in> set (map room_id (room_reading s e)). k \<notin> set (map fst (rooms s))"
    using Cons.prems(1) by auto
  then have keys1: "map fst (rooms ?s1) = map fst (rooms s) @ map room_id (room_reading s e)"
    unfolding step_room_keys [of s e] by (simp add: filter_id_conv)
  have disj: "room_id ` set (room_readings ?s1 es) \<inter> set (map fst (rooms ?s1)) = {}"
  proof -
    have "room_id ` set (room_readings ?s1 es) \<inter> set (map fst (rooms s)) = {}"
      using Cons.prems(1) by auto
    moreover have "room_id ` set (room_readings ?s1 es) \<inter> room_id ` set (room_reading s e) = {}"
      using Cons.prems(2) by (auto simp: room_id_inj)
    ultimately show ?thesis unfolding keys1 by auto
  qed
  have "distinct (room_readings ?s1 es)" using Cons.prems(2) by simp
  from Cons.IH [OF disj this] keys1 show ?case by simp
qed

lemma room_readings_append:
  "room_readings s (es @ es') = room_readings s es @ room_readings (run s es) es'"
  by (induction es arbitrary: s) simp_all

lemma general_not_room_id: "''general'' \<noteq> room_id t"
  by (simp add: room_id_def)

lemma init_room_keys: "map fst (rooms (init t0)) = [''general'']"
  by (simp add: init_def)

text \<open>
  C8, as the spec states it, fails: the room id is \<open>room-\<close> followed by the clock
  reading, so a second \<open>room:create\<close> at the same reading gets the id of the room the
  first one made, and \<open>rooms.set\<close> replaces that room.
\<close>

theorem room_create_same_reading_overwrites:
  "map (\<lambda>(k, room). (k, r_name room)) (rooms (fst (room_create alice_joined ''c1'' ''red'' 7 8))) =
     [(''general'', ''General''), (''room-7'', ''red'')] \<and>
   snd (room_create (fst (room_create alice_joined ''c1'' ''red'' 7 8)) ''c1'' ''blue'' 7 9) =
     [Emit ToAll (RoomCreated \<lparr>r_id = ''room-7'', r_name = ''blue'', r_users = [], r_createdAt = 9\<rparr>),
      RoomCallback (Some \<lparr>r_id = ''room-7'', r_name = ''blue'', r_users = [], r_createdAt = 9\<rparr>)] \<and>
   map (\<lambda>(k, room). (k, r_name room))
     (rooms (fst (room_create (fst (room_create alice_joined ''c1'' ''red'' 7 8)) ''c1'' ''blue'' 7 9))) =
     [(''general'', ''General''), (''room-7'', ''blue'')]"
  by (simp add: room_create_def Let_def alice_joined_eq toString.simps digit_char_def
      trim_def isWhitespace_def)

text \<open>
  C8, amended. Every \<open>room:create\<close> by a joined socket makes a room whose id is \<open>room-\<close>
  followed by the clock reading, with the trimmed name, no members and the clock reading
  taken for \<open>createdAt\<close>; it stores the room under its id, broadcasts it and hands it to
  the callback. In a state reached by a run from the initial state, when no room of the
  run was created at the same clock reading, the id differs from the id of every existing
  room and the room is added after the existing rooms, which stay as they are. In a run in
  which the rooms are created at pairwise different clock readings, the room ids are
  pairwise different and no room is replaced: the rooms are \<open>general\<close> and one room for
  each create, in the order of creation.
\<close>

theorem room_create_fresh_id:
  assumes "sockData s sid = Some u"
  shows "\<exists>room.
           room_create s sid name tId tCreated =
             (s\<lparr>rooms := AList.update (r_id room) room (rooms s)\<rparr>,
              [Emit ToAll (RoomCreated room), RoomCallback (Some room)]) \<and>
           r_id room = ''room-'' @ toString tId \<and>
           r_name room = trim name \<and> r_users room = [] \<and> r_createdAt room = tCreated \<and>
           (\<forall>t0 es. s = run (init t0) es \<and> tId \<notin> set (room_readings (init t0) es) \<longrightarrow>
              r_id room \<notin> set (map fst (rooms s)) \<and>
              rooms (fst (room_create s sid name tId tCreated)) = rooms s @ [(r_id room, room)]) \<and>
           (\<forall>t0 es. distinct (room_readings (init t0) es) \<longrightarrow>
              map fst (rooms (run (init t0) es)) =
                ''general'' # map room_id (room_readings (init t0) es) \<and>
              distinct (map fst (rooms (run (init t0) es))))"
proof -
  let ?room = "\<lparr>r_id = ''room-'' @ toString tId, r_name = trim name, r_users = [],
                 r_createdAt = tCreated\<rparr>"
  have run: "room_create s sid name tId tCreated =
      (s\<lparr>rooms := AList.update (r_id ?room) ?room (rooms s)\<rparr>,
       [Emit ToAll (RoomCreated ?room), RoomCallback (Some ?room)])"
    using assms by (simp add: room_create_def Let_def)
  have fresh: "r_id ?room \<notin> set (map fst (rooms s)) \<and>
      rooms (fst (room_create s sid name tId tCreated)) = rooms s @ [(r_id ?room, ?room)]"
    if "s = run (init t0) es \<and> tId \<notin> set (room_readings (init t0) es)" for t0 es
  proof -
    from that have s: "s = run (init t0) es" and t: "tId \<notin> set (room_readings (init t0) es)"
      by simp_all
    have "set (map fst (rooms s)) \<subseteq> {''general''} \<union> room_id ` set (room_readings (init t0) es)"
      unfolding s using run_room_keys_subset [of "init t0" es] by (simp add: init_room_keys)
    moreover have "room_id tId \<noteq> ''general''" by (rule room_id_not_general)
    moreover have "room_id tId \<notin> room_id ` set (room_readings (init t0) es)"
      using t by (auto simp: room_id_inj)
    ultimately have new: "room_id tId \<notin> set (map fst (rooms s))" by auto
    then have "map_of (rooms s) (room_id tId) = None"
      by (simp add: map_of_eq_None_iff)
    then have "AList.update (room_id tId) ?room (rooms s) = rooms s @ [(room_id tId, ?room)]"
      by (rule update_fresh)
    with new show ?thesis by (simp add: run room_id_def)
  qed
  have seq: "map fst (rooms (run (init t0) es)) =
        ''general'' # map room_id (room_readings (init t0) es) \<and>
      distinct (map fst (rooms (run (init t0) es)))"
    if d: "distinct (room_readings (init t0) es)" for t0 es
  proof -
    have "room_id ` set (room_readings (init t0) es) \<inter> set (map fst (rooms (init t0))) = {}"
      by (auto simp: init_room_keys general_not_room_id)
    from run_room_keys_distinct [OF this d]
    have keys: "map fst (rooms (run (init t0) es)) =
        ''general'' # map room_id (room_readings (init t0) es)"
      by (simp add: init_room_keys)
    moreover have "''general'' \<notin> set (map room_id (room_readings (init t0) es))"
    proof
      assume "''general'' \<in> set (map room_id (room_readings (init t0) es))"
      then obtain x where "room_id x = ''general''" by auto
      with room_id_not_general [of x] show False by simp
    qed
    moreover have "distinct (map room_id (room_readings (init t0) es))"
      using d by (simp add: distinct_map inj_on_def room_id_inj)
    ultimately show ?thesis by simp
  qed
  show ?thesis
  proof (rule exI [of _ ?room], intro conjI allI impI)
    show "room_create s sid name tId tCreated =
      (s\<lparr>rooms := AList.update (r_id ?room) ?room (rooms s)\<rparr>,
       [Emit ToAll (RoomCreated ?room), RoomCallback (Some ?room)])"
      by (rule run)
    show "r_id ?room = ''room-'' @ toString tId" by simp
    show "r_name ?room = trim name" by simp
    show "r_users ?room = []" by simp
    show "r_createdAt ?room = tCreated" by simp
    show "r_id ?room \<notin> set (map fst (rooms s))"
      if "s = run (init t0) es \<and> tId \<notin> set (room_readings (init t0) es)" for t0 es
      using fresh [OF that] by simp
    show "rooms (fst (room_create s sid name tId tCreated)) = rooms s @ [(r_id ?room, ?room)]"
      if "s = run (init t0) es \<and> tId \<notin> set (room_readings (init t0) es)" for t0 es
      using fresh [OF that] by simp
    show "map fst (rooms (run (init t0) es)) =
        ''general'' # map room_id (room_readings (init t0) es)"
      if "distinct (room_readings (init t0) es)" for t0 es
      using seq [OF that] by (rule conjunct1)
    show "distinct (map fst (rooms (run (init t0) es)))"
      if "distinct (room_readings (init t0) es)" for t0 es
      using seq [OF that] by (rule conjunct2)
  qed
qed

theorem room_create_fresh_id_witness:
  "sockData alice_joined ''c1'' = Some alice \<and>
   alice_joined = run (init 0) [(''c1'', Connect), (''c1'', Join ''alice'' 1 2 3)] \<and>
   7 \<notin> set (room_readings (init 0) [(''c1'', Connect), (''c1'', Join ''alice'' 1 2 3)]) \<and>
   (\<exists>room. snd (room_create alice_joined ''c1'' [CHR 0xA0, CHR ''r'', CHR ''e'', CHR ''d''] 7 8) =
             [Emit ToAll (RoomCreated room), RoomCallback (Some room)] \<and>
           rooms (fst (room_create alice_joined ''c1'' [CHR 0xA0, CHR ''r'', CHR ''e'', CHR ''d''] 7 8)) =
             rooms alice_joined @ [(''room-7'', room)] \<and>
           r_id room = ''room-7'' \<and> r_name room = ''red'' \<and> r_users room = [] \<and>
           r_createdAt room = 8) \<and>
   distinct (room_readings (init 0)
     [(''c1'', Connect), (''c1'', Join ''alice'' 1 2 3), (''c1'', CreateRoom ''red'' 7 8),
      (''c2'', CreateRoom ''green'' 7 8), (''c1'', CreateRoom ''blue'' 9 9)]) \<and>
   map fst (rooms (run (init 0)
     [(''c1'', Connect), (''c1'', Join ''alice'' 1 2 3), (''c1'', CreateRoom ''red'' 7 8),
      (''c2'', CreateRoom ''green'' 7 8), (''c1'', CreateRoom ''blue'' 9 9)])) =
     [''general'', ''room-7'', ''room-9'']"
proof -
  let ?es = "[(''c1'', Connect), (''c1'', Join ''alice'' 1 2 3)]"
  let ?es2 = "[(''c1'', Connect), (''c1'', Join ''alice'' 1 2 3), (''c1'', CreateRoom ''red'' 7 8),
      (''c2'', CreateRoom ''green'' 7 8), (''c1'', CreateRoom ''blue'' 9 9)]"
  have j: "sockData alice_joined ''c1'' = Some alice" by (simp add: alice_joined_eq)
  have r: "alice_joined = run (init 0) ?es" by (rule alice_joined_run)
  have rd: "room_readings (init 0) ?es = []"
    by (simp add: room_reading_def)
  have i: "toString 7 = ''7''" by (simp add: toString.simps digit_char_def)
  have t: "trim [CHR 0xA0, CHR ''r'', CHR ''e'', CHR ''d''] = ''red''"
    by (simp add: trim_def isWhitespace_def)
  have "room_readings alice_joined
      [(''c1'', CreateRoom ''red'' 7 8), (''c2'', CreateRoom ''green'' 7 8),
       (''c1'', CreateRoom ''blue'' 9 9)] = [7, 9]"
    by (simp add: room_reading_def step_simps alice_joined_eq room_create_def Let_def)
  then have rd2: "room_readings (init 0) ?es2 = [7, 9]"
    using room_readings_append [of "init 0" ?es
        "[(''c1'', CreateRoom ''red'' 7 8), (''c2'', CreateRoom ''green'' 7 8),
          (''c1'', CreateRoom ''blue'' 9 9)]"]
    by (simp only: rd r [symmetric] append.simps)
  have ids: "map room_id [7, 9] = [''room-7'', ''room-9'']"
    by (simp add: room_id_def toString.simps digit_char_def)
  have fresh: "alice_joined = run (init 0) ?es \<and> 7 \<notin> set (room_readings (init 0) ?es)"
    using r by (simp only: rd) simp
  have d2: "distinct (room_readings (init 0) ?es2)" by (simp only: rd2) simp
  from room_create_fresh_id [OF j, of "[CHR 0xA0, CHR ''r'', CHR ''e'', CHR ''d'']" 7 8]
  obtain room where
    run: "room_create alice_joined ''c1'' [CHR 0xA0, CHR ''r'', CHR ''e'', CHR ''d''] 7 8 =
       (alice_joined\<lparr>rooms := AList.update (r_id room) room (rooms alice_joined)\<rparr>,
        [Emit ToAll (RoomCreated room), RoomCallback (Some room)])"
    and id: "r_id room = ''room-'' @ toString 7"
    and name: "r_name room = trim [CHR 0xA0, CHR ''r'', CHR ''e'', CHR ''d'']"
    and rest: "r_users room = []" "r_createdAt room = 8"
    and new: "\<forall>t0 es. alice_joined = run (init t0) es \<and> 7 \<notin> set (room_readings (init t0) es) \<longrightarrow>
        r_id room \<notin> set (map fst (rooms alice_joined)) \<and>
        rooms (fst (room_create alice_joined ''c1'' [CHR 0xA0, CHR ''r'', CHR ''e'', CHR ''d''] 7 8)) =
          rooms alice_joined @ [(r_id room, room)]"
    and seq: "\<forall>t0 es. distinct (room_readings (init t0) es) \<longrightarrow>
        map fst (rooms (run (init t0) es)) = ''general'' # map room_id (room_readings (init t0) es) \<and>
        distinct (map fst (rooms (run (init t0) es)))"
    by blast
  from new fresh
  have app: "rooms (fst (room_create alice_joined ''c1'' [CHR 0xA0, CHR ''r'', CHR ''e'', CHR ''d''] 7 8)) =
      rooms alice_joined @ [(r_id room, room)]"
    by blast
  from seq d2
  have keys: "map fst (rooms (run (init 0) ?es2)) = ''general'' # map room_id (room_readings (init 0) ?es2)"
    by blast
  have one: "snd (room_create alice_joined ''c1'' [CHR 0xA0, CHR ''r'', CHR ''e'', CHR ''d''] 7 8) =
             [Emit ToAll (RoomCreated room), RoomCallback (Some room)] \<and>
           rooms (fst (room_create alice_joined ''c1'' [CHR 0xA0, CHR ''r'', CHR ''e'', CHR ''d''] 7 8)) =
             rooms alice_joined @ [(''room-7'', room)] \<and>
           r_id room = ''room-7'' \<and> r_name room = ''red'' \<and> r_users room = [] \<and>
           r_createdAt room = 8"
    using app id name rest by (simp add: run i t)
  have two: "map fst (rooms (run (init 0) ?es2)) = [''general'', ''room-7'', ''room-9'']"
    by (simp only: keys rd2 ids)
  have three: "7 \<notin> set (room_readings (init 0) ?es)" by (simp only: rd) simp
  from j r three one d2 two show ?thesis by blast
qed

section \<open>The message log along a run\<close>

text \<open>
  A request leaves the log as it is or appends one message, whose id is the decimal
  string of the clock reading the handler took for it.
\<close>

lemma step_messages:
  "messages (fst (step s (sid, r))) = messages s \<or>
   (\<exists>m t. idClock r = Some t \<and> m_id m = toString t \<and>
          messages (fst (step s (sid, r))) = messages s @ [m])"
proof (cases r)
  case Connect
  then show ?thesis by (simp add: step_simps connection_def)
next
  case (Join username tJoined tId tStamp)
  then show ?thesis
    by (simp add: step_simps user_join_def Let_def split: option.splits)
next
  case (Send content tId tStamp)
  then show ?thesis
    by (simp add: step_simps message_send_def Let_def split: option.splits)
next
  case (GetHistory limit)
  then show ?thesis by (simp add: step_simps message_getHistory_def Let_def)
next
  case (CreateRoom name tId tCreated)
  then show ?thesis
    by (simp add: step_simps room_create_def Let_def split: option.splits)
next
  case ListRooms
  then show ?thesis by (simp add: step_simps room_list_def)
next
  case TypingStart
  then show ?thesis by (simp add: step_simps typing_start_def split: option.splits)
next
  case TypingStop
  then show ?thesis by (simp add: step_simps typing_stop_def)
next
  case (Disconnect tId tStamp)
  then show ?thesis
    by (simp add: step_simps disconnect_def Let_def split: option.splits)
qed

lemma step_ids:
  "prefix (messages s) (messages (fst (step s e))) \<and>
   length (messages (fst (step s e))) \<le> length (messages s) + 1 \<and>
   map m_id (messages (fst (step s e))) = map m_id (messages s) @ map toString (id_reading s e)"
proof -
  obtain sid r where e: "e = (sid, r)" by (cases e)
  from step_messages [of s sid r] show ?thesis
  proof
    assume "messages (fst (step s (sid, r))) = messages s"
    then show ?thesis by (simp add: e id_reading_def)
  next
    assume "\<exists>m t. idClock r = Some t \<and> m_id m = toString t \<and>
              messages (fst (step s (sid, r))) = messages s @ [m]"
    then obtain m t where t: "idClock r = Some t" and m: "m_id m = toString t"
      and app: "messages (fst (step s (sid, r))) = messages s @ [m]"
      by blast
    from app have "messages (fst (step s (sid, r))) \<noteq> messages s" by simp
    with t have "id_reading s e = [t]" by (simp add: e id_reading_def)
    with app m show ?thesis by (simp add: e)
  qed
qed

lemma run_ids:
  "prefix (messages s) (messages (run s es)) \<and>
   length (messages (run s es)) \<le> length (messages s) + length es \<and>
   map m_id (messages (run s es)) = map m_id (messages s) @ map toString (id_readings s es)"
proof (induction es arbitrary: s)
  case Nil
  then show ?case by simp
next
  case (Cons e es)
  let ?s1 = "fst (step s e)"
  note one = step_ids [of s e]
  note rest = Cons.IH [of ?s1]
  have "prefix (messages s) (messages (run ?s1 es))"
    using one rest by (blast intro: prefix_order.trans)
  moreover have "length (messages (run ?s1 es)) \<le> length (messages s) + length (e # es)"
    using one rest by simp
  moreover have "map m_id (messages (run ?s1 es)) =
      map m_id (messages s) @ map toString (id_readings s (e # es))"
    using one rest by simp
  ultimately show ?case by (simp only: run.simps)
qed

lemma id_values_map: "id_values ms = map parseNat (map m_id ms)"
  by (simp add: id_values_def)

lemma run_id_values:
  "id_values (messages (run s es)) = id_values (messages s) @ id_readings s es"
proof -
  have "map parseNat (map toString (id_readings s es)) = id_readings s es"
    by (induction "id_readings s es") (simp_all add: parseNat_toString map_idI)
  then show ?thesis
    by (simp only: id_values_map run_ids map_append)
qed

lemma id_values_distinct:
  "sorted_wrt (<) (id_values ms) \<Longrightarrow> distinct (map m_id ms)"
proof -
  assume "sorted_wrt (<) (id_values ms)"
  then have "distinct (map parseNat (map m_id ms))"
    by (simp add: id_values_def strict_sorted_iff comp_def)
  then show ?thesis using distinct_map by blast
qed

lemma id_readings_append:
  "id_readings s (es @ es') = id_readings s es @ id_readings (run s es) es'"
  by (induction es arbitrary: s) simp_all

text \<open>
  C2, as the spec states it, fails: a message id is the clock reading, and two messages
  appended at the same reading have the same id.
\<close>

theorem two_sends_same_reading_same_id:
  "map m_id (messages (run alice_joined [(''c1'', Send ''hi'' 7 7), (''c1'', Send ''ho'' 7 7)])) =
     [''2'', ''7'', ''7''] \<and>
   \<not> distinct (map m_id
         (messages (run alice_joined [(''c1'', Send ''hi'' 7 7), (''c1'', Send ''ho'' 7 7)])))"
proof -
  have ids: "map m_id (messages (run alice_joined [(''c1'', Send ''hi'' 7 7), (''c1'', Send ''ho'' 7 7)])) =
     [''2'', ''7'', ''7'']"
    by (simp add: step_simps alice_joined_eq message_send_def Let_def alice_def
        alice_joined_message_def trim_def isWhitespace_def toString.simps digit_char_def)
  show ?thesis by (simp only: ids) simp
qed

text \<open>
  C2, amended. For every run: the log grows at its end only (the log before the run is a
  prefix of the log after it, and every request appends at most one message), and the
  ids of the messages appended are the decimal strings of the clock readings taken for
  them, in order. So the ids of the log, read as numbers, increase strictly in log order
  exactly when the ids before the run followed by those readings do, and then the ids
  are pairwise different; ids that are pairwise different come from readings that are
  pairwise different.
\<close>

theorem log_append_order_ids_follow_clock:
  "prefix (messages s) (messages (run s es)) \<and>
   length (messages (run s es)) \<le> length (messages s) + length es \<and>
   map m_id (messages (run s es)) = map m_id (messages s) @ map toString (id_readings s es) \<and>
   sorted_wrt (<) (id_values (messages (run s es))) =
     sorted_wrt (<) (id_values (messages s) @ id_readings s es) \<and>
   (sorted_wrt (<) (id_values (messages s) @ id_readings s es) \<longrightarrow>
      distinct (map m_id (messages (run s es)))) \<and>
   (distinct (map m_id (messages (run s es))) \<longrightarrow> distinct (id_readings s es))"
proof (intro conjI impI)
  show "prefix (messages s) (messages (run s es))"
    using run_ids [of s es] by (rule conjunct1)
  show "length (messages (run s es)) \<le> length (messages s) + length es"
    using run_ids [of s es] by blast
  show ids: "map m_id (messages (run s es)) =
      map m_id (messages s) @ map toString (id_readings s es)"
    using run_ids [of s es] by blast
  show "sorted_wrt (<) (id_values (messages (run s es))) =
      sorted_wrt (<) (id_values (messages s) @ id_readings s es)"
    by (simp only: run_id_values)
  show "distinct (map m_id (messages (run s es)))"
    if "sorted_wrt (<) (id_values (messages s) @ id_readings s es)"
  proof -
    from that have "sorted_wrt (<) (id_values (messages (run s es)))"
      by (simp only: run_id_values)
    then show ?thesis by (rule id_values_distinct)
  qed
  show "distinct (id_readings s es)" if "distinct (map m_id (messages (run s es)))"
  proof -
    from that have "distinct (map toString (id_readings s es))"
      unfolding ids by simp
    then show ?thesis using distinct_map by blast
  qed
qed

theorem log_append_order_ids_follow_clock_witness:
  "id_readings alice_joined
     [(''c1'', Send ''hi'' 7 7), (''c9'', Send ''oh'' 1 1), (''c1'', Disconnect 9 9)] = [7, 9] \<and>
   sorted_wrt (<) (id_values (messages alice_joined) @
     id_readings alice_joined
       [(''c1'', Send ''hi'' 7 7), (''c9'', Send ''oh'' 1 1), (''c1'', Disconnect 9 9)]) \<and>
   map m_id (messages (run alice_joined
       [(''c1'', Send ''hi'' 7 7), (''c9'', Send ''oh'' 1 1), (''c1'', Disconnect 9 9)])) =
     [''2'', ''7'', ''9''] \<and>
   distinct (map m_id (messages (run alice_joined
       [(''c1'', Send ''hi'' 7 7), (''c9'', Send ''oh'' 1 1), (''c1'', Disconnect 9 9)]))) \<and>
   distinct (id_readings alice_joined
       [(''c1'', Send ''hi'' 7 7), (''c9'', Send ''oh'' 1 1), (''c1'', Disconnect 9 9)])"
proof -
  let ?es = "[(''c1'', Send ''hi'' 7 7), (''c9'', Send ''oh'' 1 1), (''c1'', Disconnect 9 9)]"
  have rd: "id_readings alice_joined ?es = [7, 9]"
    by (simp add: id_reading_def step_simps alice_joined_eq message_send_def disconnect_def
        Let_def trim_def isWhitespace_def)
  have old: "id_values (messages alice_joined) = [2]"
    by (simp add: alice_joined_eq alice_joined_message_def id_values_def parseNat_def
        digit_value_def)
  have h: "sorted_wrt (<) (id_values (messages alice_joined) @ id_readings alice_joined ?es)"
    by (simp only: rd old) simp
  have strs: "map m_id (messages alice_joined) @ map toString [7, 9] = [''2'', ''7'', ''9'']"
    by (simp add: alice_joined_eq alice_joined_message_def toString.simps digit_char_def)
  note inst = log_append_order_ids_follow_clock [of alice_joined ?es]
  from inst have ids: "map m_id (messages (run alice_joined ?es)) = [''2'', ''7'', ''9'']"
    by (simp only: rd strs)
  from inst h have d: "distinct (map m_id (messages (run alice_joined ?es)))" by blast
  from inst d have d': "distinct (id_readings alice_joined ?es)" by blast
  from rd h ids d d' show ?thesis by blast
qed

end
